theory Spec2Isabelle
  imports Main
begin

section \<open>Python values and errors\<close>

text \<open>
  The values that flow through \<^verbatim>\<open>StackedRNNCells\<close>: sizes and shapes (\<^verbatim>\<open>None\<close>,
  integers, lists and tuples of them), the training flag, and tensors. The module never looks
  inside a tensor, so a tensor is either the result of \<^verbatim>\<open>ops.zeros(shape, dtype=...)\<close>,
  kept symbolically with its shape and dtype, or an opaque tensor identified by a number.
\<close>

datatype val =
    VNone
  | VBool bool
  | VInt int
  | VList "val list"
  | VTuple "val list"
  | VZeros "val list" string
  | VTensor nat

type_synonym addr = nat

text \<open>A keyword-argument dictionary; Python compares dictionaries without regard to order.\<close>

type_synonym kwargs = "string \<rightharpoonup> val"

datatype capability = CallMethod | StateSizeAttr

text \<open>The indexing expressions of the module that can run out of range.\<close>

datatype index_site = CellsLast | StateSizeFirst | FlattenFirst

text \<open>
  \<open>ValueError\<close> is the error that \<^verbatim>\<open>__init__\<close> raises, with the missing capability and the
  offending cell. \<open>Raised n\<close> is an exception coming out of a collaborator (a cell's method,
  the base layer, the tensor runtime, the serialization library).
\<close>

datatype error =
    ValueError capability addr
  | IndexError index_site
  | AttributeError string
  | TypeError
  | KeyError string
  | Raised nat

section \<open>Cells and the composite\<close>

type_synonym step = "val \<Rightarrow> val list \<Rightarrow> kwargs \<Rightarrow> error + (val \<times> val)"

text \<open>
  A cell is an arbitrary Python object; the record holds what the module reads from it.
  An attribute that may be absent is an option. \<open>is_layer\<close> is \<^verbatim>\<open>isinstance(cell, Layer)\<close>,
  \<open>dunder_call\<close> is \<^verbatim>\<open>cell.__call__\<close> (the cell is callable when it is present),
  \<open>call_has_training_arg\<close> says whether the signature of the cell's \<^verbatim>\<open>call\<close> has a
  \<^verbatim>\<open>training\<close> parameter, which is what \<^verbatim>\<open>Layer._call_has_training_arg()\<close> reports.
  \<open>get_initial_state_fn\<close> is \<open>None\<close> when \<^verbatim>\<open>getattr(cell, "get_initial_state", None)\<close> is
  falsy. A step returns the pair that \<^verbatim>\<open>inputs, states = cell_call_fn(...)\<close> unpacks, or
  raises.
\<close>

record cell =
  is_layer :: bool
  call_fn :: "step option"
  dunder_call :: "step option"
  cell_state_size :: "val option"
  cell_output_size :: "val option"
  get_initial_state_fn :: "(val \<Rightarrow> error + val) option"
  build_fn :: "(val \<Rightarrow> error option) option"
  cell_built :: bool
  call_has_training_arg :: bool

text \<open>Cells are objects: the list of the composite holds references into a store.\<close>

type_synonym heap = "addr \<Rightarrow> cell"

text \<open>
  What the composite inherits from \<^verbatim>\<open>Layer\<close>: the built flag, the compute dtype and the
  base configuration that \<^verbatim>\<open>super().get_config()\<close> returns.
\<close>

record layer_base =
  built :: bool
  compute_dtype :: string
  base_config :: kwargs

record composite =
  layer :: layer_base
  cells :: "addr list"

section \<open>Construction\<close>

text \<open>
  The loop of \<^verbatim>\<open>__init__\<close> (lines 37-47): for each cell, first the \<^verbatim>\<open>call\<close> check, then
  the \<^verbatim>\<open>state_size\<close> check; the first failure raises.
\<close>

fun check_cells :: "heap \<Rightarrow> addr list \<Rightarrow> error option" where
  "check_cells h [] = None"
| "check_cells h (a # as) =
     (if call_fn (h a) = None then Some (ValueError CallMethod a)
      else if cell_state_size (h a) = None then Some (ValueError StateSizeAttr a)
      else check_cells h as)"

text \<open>
  \<^verbatim>\<open>__init__\<close>: \<^verbatim>\<open>super().__init__(**kwargs)\<close> runs first; the base class is not part of
  this module and is the parameter \<open>layer_init\<close>. Then the checks, then \<^verbatim>\<open>self.cells = cells\<close>.
\<close>

definition init ::
  "(kwargs \<Rightarrow> error + layer_base) \<Rightarrow> heap \<Rightarrow> addr list \<Rightarrow> kwargs \<Rightarrow> error + composite" where
  "init layer_init h cs kw =
     (case layer_init kw of
        Inl e \<Rightarrow> Inl e
      | Inr b \<Rightarrow>
          (case check_cells h cs of
             Some e \<Rightarrow> Inl e
           | None \<Rightarrow> Inr \<lparr>layer = b, cells = cs\<rparr>))"

section \<open>Output size\<close>

text \<open>
  The \<^verbatim>\<open>elif\<close> and \<^verbatim>\<open>else\<close> branches: the first element of a list or tuple
  \<^verbatim>\<open>state_size\<close> (an \<^verbatim>\<open>IndexError\<close> when it is empty), any other value as it is.
\<close>

definition output_from_state_size :: "cell \<Rightarrow> error + val" where
  "output_from_state_size c =
     (case cell_state_size c of
        None \<Rightarrow> Inl (AttributeError ''state_size'')
      | Some (VList xs) \<Rightarrow>
          (case xs of [] \<Rightarrow> Inl (IndexError StateSizeFirst) | x # _ \<Rightarrow> Inr x)
      | Some (VTuple xs) \<Rightarrow>
          (case xs of [] \<Rightarrow> Inl (IndexError StateSizeFirst) | x # _ \<Rightarrow> Inr x)
      | Some v \<Rightarrow> Inr v)"

text \<open>
  The three branches that the module writes twice, on \<^verbatim>\<open>self.cells[-1]\<close> in
  \<^verbatim>\<open>output_size\<close> (lines 56-61) and on \<^verbatim>\<open>cell\<close> in \<^verbatim>\<open>build\<close> (lines 107-112).
  \<^verbatim>\<open>getattr(cell, "output_size", None) is not None\<close> fails both for an absent attribute
  and for one that is \<^verbatim>\<open>None\<close>.
\<close>

definition resolve_output_size :: "cell \<Rightarrow> error + val" where
  "resolve_output_size c =
     (case cell_output_size c of
        None \<Rightarrow> output_from_state_size c
      | Some VNone \<Rightarrow> output_from_state_size c
      | Some v \<Rightarrow> Inr v)"

text \<open>The property \<^verbatim>\<open>output_size\<close>; \<^verbatim>\<open>self.cells[-1]\<close> raises on an empty list.\<close>

definition output_size :: "heap \<Rightarrow> composite \<Rightarrow> error + val" where
  "output_size h self =
     (case cells self of
        [] \<Rightarrow> Inl (IndexError CellsLast)
      | _ # _ \<Rightarrow> resolve_output_size (h (last (cells self))))"

section \<open>Initial state\<close>

text \<open>\<^verbatim>\<open>isinstance(x, int)\<close>: Python's \<^verbatim>\<open>bool\<close> is a subclass of \<^verbatim>\<open>int\<close>.\<close>

definition isinstance_int :: "val \<Rightarrow> bool" where
  "isinstance_int v = (case v of VInt _ \<Rightarrow> True | VBool _ \<Rightarrow> True | _ \<Rightarrow> False)"

text \<open>
  \<^verbatim>\<open>for d in state_size\<close>: a list or a tuple gives its elements; the other values of the
  model are not iterable.
\<close>

definition py_iter :: "val \<Rightarrow> error + val list" where
  "py_iter v = (case v of VList xs \<Rightarrow> Inr xs | VTuple xs \<Rightarrow> Inr xs | _ \<Rightarrow> Inl TypeError)"

text \<open>
  \<^verbatim>\<open>ops.zeros(shape, dtype=...)\<close> belongs to the tensor runtime, which is not part of this
  module. Whether the call returns is the runtime's business: it raises for a dimension that
  is not a non-negative integer, such as the \<^verbatim>\<open>None\<close> that \<^verbatim>\<open>batch_size\<close> defaults to,
  and for a tensor it cannot allocate. The parameter \<open>zeros_raises\<close> gives the exception the
  runtime raises for a shape and dtype, and \<open>None\<close> where it returns; what it returns is
  the zero tensor of that shape and dtype.
\<close>

definition ops_zeros ::
  "(val list \<Rightarrow> string \<Rightarrow> error option) \<Rightarrow> val list \<Rightarrow> string \<Rightarrow> error + val" where
  "ops_zeros zeros_raises shape dtype =
     (case zeros_raises shape dtype of
        Some e \<Rightarrow> Inl e
      | None \<Rightarrow> Inr (VZeros shape dtype))"

text \<open>
  The list comprehension of lines 77-80: one call of \<^verbatim>\<open>ops.zeros\<close> per dimension, in
  order; the first call that raises ends it.
\<close>

fun zeros_loop ::
  "(val list \<Rightarrow> string \<Rightarrow> error option) \<Rightarrow> string \<Rightarrow> val \<Rightarrow> val list \<Rightarrow> val list
     \<Rightarrow> error + val list" where
  "zeros_loop zeros_raises dtype batch_size [] zs = Inr zs"
| "zeros_loop zeros_raises dtype batch_size (d # ds) zs =
     (case ops_zeros zeros_raises [batch_size, d] dtype of
        Inl e \<Rightarrow> Inl e
      | Inr z \<Rightarrow> zeros_loop zeros_raises dtype batch_size ds (zs @ [z]))"

text \<open>The body of the loop of \<^verbatim>\<open>get_initial_state\<close> (lines 66-81) for one cell.\<close>

definition cell_initial_state ::
  "(val list \<Rightarrow> string \<Rightarrow> error option) \<Rightarrow> string \<Rightarrow> val \<Rightarrow> cell \<Rightarrow> error + val" where
  "cell_initial_state zeros_raises dtype batch_size c =
     (case get_initial_state_fn c of
        Some g \<Rightarrow> g batch_size
      | None \<Rightarrow>
          (case cell_state_size c of
             None \<Rightarrow> Inl (AttributeError ''state_size'')
           | Some sz \<Rightarrow>
               (case py_iter (if isinstance_int sz then VList [sz] else sz) of
                  Inl e \<Rightarrow> Inl e
                | Inr ds \<Rightarrow>
                    (case zeros_loop zeros_raises dtype batch_size ds [] of
                       Inl e \<Rightarrow> Inl e
                     | Inr zs \<Rightarrow> Inr (VList zs)))))"

fun initial_states_loop ::
  "(val list \<Rightarrow> string \<Rightarrow> error option) \<Rightarrow> heap \<Rightarrow> string \<Rightarrow> val \<Rightarrow> addr list \<Rightarrow> val list
     \<Rightarrow> error + val list" where
  "initial_states_loop zeros_raises h dtype batch_size [] initial_states = Inr initial_states"
| "initial_states_loop zeros_raises h dtype batch_size (a # as) initial_states =
     (case cell_initial_state zeros_raises dtype batch_size (h a) of
        Inl e \<Rightarrow> Inl e
      | Inr v \<Rightarrow>
          initial_states_loop zeros_raises h dtype batch_size as (initial_states @ [v]))"

definition get_initial_state ::
  "(val list \<Rightarrow> string \<Rightarrow> error option) \<Rightarrow> heap \<Rightarrow> composite \<Rightarrow> val \<Rightarrow> error + val list" where
  "get_initial_state zeros_raises h self batch_size =
     initial_states_loop zeros_raises h (compute_dtype (layer self)) batch_size (cells self) []"

section \<open>The step\<close>

text \<open>
  \<^verbatim>\<open>list(states) if nest.is_nested(states) else [states]\<close>: lists and tuples are nested
  structures, every other value of the model is a leaf.
\<close>

definition normalize_states :: "val \<Rightarrow> val list" where
  "normalize_states s = (case s of VList xs \<Rightarrow> xs | VTuple xs \<Rightarrow> xs | v \<Rightarrow> [v])"

text \<open>
  Lines 89-92: the dictionary \<^verbatim>\<open>kwargs\<close> is updated in place, so what one iteration
  leaves is what the next one starts from.
\<close>

definition forward_kwargs :: "cell \<Rightarrow> val \<Rightarrow> kwargs \<Rightarrow> kwargs" where
  "forward_kwargs c training kw =
     (if is_layer c \<and> call_has_training_arg c
      then kw(''training'' \<mapsto> training)
      else kw(''training'' := None))"

text \<open>\<^verbatim>\<open>cell.__call__ if callable(cell) else cell.call\<close>.\<close>

definition cell_call_fn :: "cell \<Rightarrow> error + step" where
  "cell_call_fn c =
     (case dunder_call c of
        Some f \<Rightarrow> Inr f
      | None \<Rightarrow> (case call_fn c of Some f \<Rightarrow> Inr f | None \<Rightarrow> Inl (AttributeError ''call'')))"

text \<open>One call of a cell's entry point, as the composite makes it.\<close>

record invocation =
  inv_cell :: addr
  inv_inputs :: val
  inv_states :: "val list"
  inv_kwargs :: kwargs

text \<open>
  The loop of \<^verbatim>\<open>call\<close> over \<^verbatim>\<open>zip(self.cells, states)\<close>, with the list
  \<^verbatim>\<open>new_states\<close> and the calls made so far. A call is recorded when it is made, whatever
  it returns.
\<close>

fun call_loop ::
  "heap \<Rightarrow> val \<Rightarrow> (addr \<times> val) list \<Rightarrow> val \<Rightarrow> kwargs \<Rightarrow> val list \<Rightarrow> invocation list
     \<Rightarrow> (error + val \<times> val list) \<times> invocation list" where
  "call_loop h training [] inputs kw new_states calls = (Inr (inputs, new_states), calls)"
| "call_loop h training ((a, s) # rest) inputs kw new_states calls =
     (let states = normalize_states s;
          kw' = forward_kwargs (h a) training kw
      in case cell_call_fn (h a) of
           Inl e \<Rightarrow> (Inl e, calls)
         | Inr f \<Rightarrow>
             (let calls' = calls @ [\<lparr>inv_cell = a, inv_inputs = inputs,
                                     inv_states = states, inv_kwargs = kw'\<rparr>]
              in case f inputs states kw' of
                   Inl e \<Rightarrow> (Inl e, calls')
                 | Inr (out, states') \<Rightarrow>
                     call_loop h training rest out kw' (new_states @ [states']) calls'))"

definition call ::
  "heap \<Rightarrow> composite \<Rightarrow> val \<Rightarrow> val list \<Rightarrow> val \<Rightarrow> kwargs
     \<Rightarrow> (error + val \<times> val list) \<times> invocation list" where
  "call h self inputs states training kw =
     call_loop h training (zip (cells self) states) inputs kw [] []"

section \<open>Build\<close>

text \<open>\<^verbatim>\<open>nest.flatten\<close>: the leaves of a nested structure, left to right; a leaf gives itself.\<close>

fun flatten :: "val \<Rightarrow> val list" where
  "flatten (VList xs) = concat (map flatten xs)"
| "flatten (VTuple xs) = concat (map flatten xs)"
| "flatten v = [v]"

text \<open>
  Lines 102-106. The hook is recorded with the shape it receives. When it raises, the flag
  is not set. What the hook does inside the cell is the cell's own business and is not
  modelled; the module itself only sets \<^verbatim>\<open>cell.built\<close>.
\<close>

definition build_cell ::
  "addr \<Rightarrow> val \<Rightarrow> heap \<Rightarrow> (addr \<times> val) list \<Rightarrow> error option \<times> heap \<times> (addr \<times> val) list" where
  "build_cell a input_shape h hooks =
     (if is_layer (h a) \<and> \<not> cell_built (h a)
      then (case build_fn (h a) of
              None \<Rightarrow> (Some (AttributeError ''build''), h, hooks)
            | Some f \<Rightarrow>
                (case f input_shape of
                   Some e \<Rightarrow> (Some e, h, hooks @ [(a, input_shape)])
                 | None \<Rightarrow> (None, h(a := (h a)\<lparr>cell_built := True\<rparr>), hooks @ [(a, input_shape)])))
      else (None, h, hooks))"

fun build_loop ::
  "addr list \<Rightarrow> val \<Rightarrow> heap \<Rightarrow> (addr \<times> val) list \<Rightarrow> error option \<times> heap \<times> (addr \<times> val) list" where
  "build_loop [] input_shape h hooks = (None, h, hooks)"
| "build_loop (a # as) input_shape h hooks =
     (case build_cell a input_shape h hooks of
        (Some e, h', hooks') \<Rightarrow> (Some e, h', hooks')
      | (None, h', hooks') \<Rightarrow>
          (case resolve_output_size (h' a) of
             Inl e \<Rightarrow> (Some e, h', hooks')
           | Inr output_dim \<Rightarrow>
               (case flatten input_shape of
                  [] \<Rightarrow> (Some (IndexError FlattenFirst), h', hooks')
                | batch_size # _ \<Rightarrow>
                    build_loop as (VTuple [batch_size, output_dim]) h' hooks')))"

text \<open>
  \<^verbatim>\<open>build\<close> returns the exception if one was raised, the store, the composite and the
  hooks it invoked, in order. \<^verbatim>\<open>self.built = True\<close> is reached only without an exception.
\<close>

definition build ::
  "heap \<Rightarrow> composite \<Rightarrow> val \<Rightarrow> error option \<times> heap \<times> composite \<times> (addr \<times> val) list" where
  "build h self input_shape =
     (case build_loop (cells self) input_shape h [] of
        (Some e, h', hooks) \<Rightarrow> (Some e, h', self, hooks)
      | (None, h', hooks) \<Rightarrow>
          (None, h', self\<lparr>layer := (layer self)\<lparr>built := True\<rparr>\<rparr>, hooks))"

section \<open>Configuration\<close>

text \<open>
  A cell descriptor, as \<^verbatim>\<open>serialize_keras_object\<close> produces it: a class name and the
  cell's configuration. The module passes descriptors on without reading them.
\<close>

datatype descr = Descr string "(string \<times> val) list"

text \<open>
  The configuration dictionary: its entry \<^verbatim>\<open>"cells"\<close>, when there is one, and the other
  entries.
\<close>

record config =
  cfg_cells :: "descr list option"
  cfg_rest :: kwargs

text \<open>
  The loop of \<^verbatim>\<open>get_config\<close>. \<^verbatim>\<open>serialize_keras_object\<close> belongs to the serialization
  library and is the parameter \<open>serialize\<close>.
\<close>

fun serialize_cells ::
  "(cell \<Rightarrow> error + descr) \<Rightarrow> heap \<Rightarrow> addr list \<Rightarrow> descr list \<Rightarrow> error + descr list" where
  "serialize_cells serialize h [] ds = Inr ds"
| "serialize_cells serialize h (a # as) ds =
     (case serialize (h a) of
        Inl e \<Rightarrow> Inl e
      | Inr d \<Rightarrow> serialize_cells serialize h as (ds @ [d]))"

text \<open>\<^verbatim>\<open>{**base_config, **config}\<close>: the entry \<^verbatim>\<open>"cells"\<close> of \<^verbatim>\<open>config\<close> wins.\<close>

definition get_config :: "(cell \<Rightarrow> error + descr) \<Rightarrow> heap \<Rightarrow> composite \<Rightarrow> error + config" where
  "get_config serialize h self =
     (case serialize_cells serialize h (cells self) [] of
        Inl e \<Rightarrow> Inl e
      | Inr ds \<Rightarrow>
          Inr \<lparr>cfg_cells = Some ds, cfg_rest = (base_config (layer self))(''cells'' := None)\<rparr>)"

text \<open>
  The loop of \<^verbatim>\<open>from_config\<close>. \<^verbatim>\<open>deserialize_keras_object\<close> is the parameter
  \<open>deserialize\<close>: it creates an object, so it returns the reference and the new store.
\<close>

fun deserialize_cells ::
  "(descr \<Rightarrow> 'c \<Rightarrow> heap \<Rightarrow> error + addr \<times> heap) \<Rightarrow> 'c \<Rightarrow> descr list \<Rightarrow> addr list \<Rightarrow> heap
     \<Rightarrow> error + addr list \<times> heap" where
  "deserialize_cells deserialize custom_objects [] cs h = Inr (cs, h)"
| "deserialize_cells deserialize custom_objects (d # ds) cs h =
     (case deserialize d custom_objects h of
        Inl e \<Rightarrow> Inl e
      | Inr (a, h') \<Rightarrow> deserialize_cells deserialize custom_objects ds (cs @ [a]) h')"

text \<open>
  \<^verbatim>\<open>config.pop("cells")\<close> raises \<^verbatim>\<open>KeyError\<close> without the entry;
  \<^verbatim>\<open>cls(cells, **config)\<close> is \<^verbatim>\<open>__init__\<close> on the remaining entries.
\<close>

definition from_config ::
  "(kwargs \<Rightarrow> error + layer_base) \<Rightarrow> (descr \<Rightarrow> 'c \<Rightarrow> heap \<Rightarrow> error + addr \<times> heap)
     \<Rightarrow> config \<Rightarrow> 'c \<Rightarrow> heap \<Rightarrow> error + composite \<times> heap" where
  "from_config layer_init deserialize cfg custom_objects h =
     (case cfg_cells cfg of
        None \<Rightarrow> Inl (KeyError ''cells'')
      | Some ds \<Rightarrow>
          (case deserialize_cells deserialize custom_objects ds [] h of
             Inl e \<Rightarrow> Inl e
           | Inr (cs, h') \<Rightarrow>
               (case init layer_init h' cs (cfg_rest cfg) of
                  Inl e \<Rightarrow> Inl e
                | Inr self \<Rightarrow> Inr (self, h'))))"

section \<open>Notions used in the statements\<close>

text \<open>
  The declared state arity of a cell is the number of state tensors that its
  \<^verbatim>\<open>state_size\<close> announces: one for a single dimension, the length for a list or tuple
  of dimensions. \<open>state_dims\<close> are those dimensions.
\<close>

definition state_arity :: "val \<Rightarrow> nat" where
  "state_arity sz = (case sz of VList xs \<Rightarrow> length xs | VTuple xs \<Rightarrow> length xs | _ \<Rightarrow> 1)"

definition state_dims :: "val \<Rightarrow> val list" where
  "state_dims sz = (case sz of VList xs \<Rightarrow> xs | VTuple xs \<Rightarrow> xs | v \<Rightarrow> [v])"

text \<open>
  For \<^verbatim>\<open>build\<close>: position \<open>i\<close> of the cell list holds an unbuilt layer when the cell
  there is a \<^verbatim>\<open>Layer\<close> instance whose \<^verbatim>\<open>built\<close> flag is not set and the same object does
  not occur earlier in the list. \<open>mark_built h A\<close> is the store \<open>h\<close> with the flag set on
  the \<^verbatim>\<open>Layer\<close> instances among the objects \<open>A\<close>.
\<close>

definition unbuilt_layer :: "heap \<Rightarrow> addr list \<Rightarrow> nat \<Rightarrow> bool" where
  "unbuilt_layer h as i \<longleftrightarrow>
     is_layer (h (as ! i)) \<and> \<not> cell_built (h (as ! i)) \<and> as ! i \<notin> set (take i as)"

definition mark_built :: "heap \<Rightarrow> addr set \<Rightarrow> heap" where
  "mark_built h A = (\<lambda>a. if a \<in> A \<and> is_layer (h a) then (h a)\<lparr>cell_built := True\<rparr> else h a)"

section \<open>Example cells\<close>

text \<open>Concrete cells and stores on which the theorems below are instantiated.\<close>

definition example_layer_init :: "kwargs \<Rightarrow> error + layer_base" where
  "example_layer_init kw = Inr \<lparr>built = False, compute_dtype = ''float32'', base_config = kw\<rparr>"

definition example_step :: step where
  "example_step x s kw = Inr (VList (x # s), VList s)"

definition example_cell :: "val \<Rightarrow> cell" where
  "example_cell sz =
     \<lparr>is_layer = True, call_fn = Some example_step, dunder_call = Some example_step,
      cell_state_size = Some sz, cell_output_size = None, get_initial_state_fn = None,
      build_fn = Some (\<lambda>_. None), cell_built = False, call_has_training_arg = False\<rparr>"

definition example_heap :: heap where
  "example_heap a = (if a = 0 then example_cell (VInt 4) else example_cell (VInt 8))"

definition no_state_size_cell :: cell where
  "no_state_size_cell = (example_cell VNone)\<lparr>cell_state_size := None\<rparr>"

definition broken_heap :: heap where
  "broken_heap a = (if a = 1 then no_state_size_cell else example_cell (VInt 4))"

definition example_base :: layer_base where
  "example_base = \<lparr>built = False, compute_dtype = ''float32'', base_config = Map.empty\<rparr>"

definition sized_cell :: "val option \<Rightarrow> val \<Rightarrow> cell" where
  "sized_cell out sz = (example_cell sz)\<lparr>cell_output_size := out\<rparr>"

definition sized_heap :: heap where
  "sized_heap a =
     (if a = 0 then sized_cell (Some (VInt 16)) (VInt 4)
      else if a = 1 then sized_cell None (VList [VInt 7, VInt 9])
      else sized_cell (Some VNone) (VInt 5))"

definition generator_cell :: cell where
  "generator_cell =
     (example_cell (VList [VInt 4, VInt 4]))\<lparr>get_initial_state_fn := Some (\<lambda>batch_size. Inr (VTensor 0))\<rparr>"

definition generator_heap :: heap where
  "generator_heap a = (if a = 0 then generator_cell else example_cell (VTuple [VInt 5, VInt 6]))"

definition plain_training_cell :: cell where
  "plain_training_cell =
     (example_cell (VInt 4))\<lparr>is_layer := False, dunder_call := None, call_has_training_arg := True\<rparr>"

definition training_heap :: heap where
  "training_heap a =
     (if a = 0 then example_cell (VInt 4)
      else if a = 1 then (example_cell (VInt 8))\<lparr>call_has_training_arg := True\<rparr>
      else plain_training_cell)"

definition duck_cell :: cell where
  "duck_cell = (example_cell (VList [VInt 7, VInt 9]))\<lparr>is_layer := False\<rparr>"

definition build_heap :: heap where
  "build_heap a =
     (if a = 0 then example_cell (VInt 4)
      else if a = 1 then duck_cell
      else (sized_cell (Some (VInt 16)) (VInt 5))\<lparr>cell_built := True\<rparr>)"

definition example_zeros_raises :: "val list \<Rightarrow> string \<Rightarrow> error option" where
  "example_zeros_raises shape dtype =
     (if list_all (\<lambda>d. case d of VInt n \<Rightarrow> 0 \<le> n \<and> n \<le> 1000 | _ \<Rightarrow> False) shape
      then None else Some (Raised 3))"

definition example_serialize :: "cell \<Rightarrow> error + descr" where
  "example_serialize c =
     (case cell_state_size c of
        Some (VInt n) \<Rightarrow> Inr (Descr ''Cell'' [(''units'', VInt n)])
      | _ \<Rightarrow> Inl (Raised 0))"

definition example_deserialize :: "descr \<Rightarrow> string list \<Rightarrow> heap \<Rightarrow> error + addr \<times> heap" where
  "example_deserialize d registered h =
     (case d of
        Descr name [(k, VInt n)] \<Rightarrow>
          (if name \<in> set registered
           then Inr (100 + nat n, h(100 + nat n := example_cell (VInt n)))
           else Inl (Raised 1))
      | _ \<Rightarrow> Inl (Raised 2))"

definition example_config :: config where
  "example_config =
     \<lparr>cfg_cells = Some [Descr ''Cell'' [(''units'', VInt 4)], Descr ''Cell'' [(''units'', VInt 8)]],
      cfg_rest = Map.empty\<rparr>"

section \<open>Properties\<close>

subsection \<open>Construction\<close>

lemma check_cells_None:
  "check_cells h cs = None \<longleftrightarrow> (\<forall>a\<in>set cs. call_fn (h a) \<noteq> None \<and> cell_state_size (h a) \<noteq> None)"
  by (induction cs) auto

lemma check_cells_Some:
  "check_cells h cs = Some e \<Longrightarrow>
     \<exists>a\<in>set cs. (e = ValueError CallMethod a \<and> call_fn (h a) = None) \<or>
                (e = ValueError StateSizeAttr a \<and> call_fn (h a) \<noteq> None \<and> cell_state_size (h a) = None)"
  by (induction cs) (auto split: if_splits)

text \<open>
  Claim C3. When some candidate has no \<^verbatim>\<open>call\<close> method or no \<^verbatim>\<open>state_size\<close> attribute,
  \<^verbatim>\<open>__init__\<close> raises, so no composite exists on which build or call could run; once the
  base class has accepted the keyword arguments, the exception is the \<^verbatim>\<open>ValueError\<close> of
  the contract check, naming a candidate that lacks the capability. When every candidate has
  both and the base class accepts the keyword arguments, construction succeeds and the
  composite holds the candidates in the order given.
\<close>

theorem init_checks_contract:
  "((\<exists>a\<in>set cs. call_fn (h a) = None \<or> cell_state_size (h a) = None) \<longrightarrow>
      (\<exists>e. init layer_init h cs kw = Inl e) \<and>
      (\<forall>b. layer_init kw = Inr b \<longrightarrow>
         (\<exists>a\<in>set cs.
            (init layer_init h cs kw = Inl (ValueError CallMethod a) \<and> call_fn (h a) = None) \<or>
            (init layer_init h cs kw = Inl (ValueError StateSizeAttr a) \<and>
             cell_state_size (h a) = None)))) \<and>
   ((\<forall>a\<in>set cs. call_fn (h a) \<noteq> None \<and> cell_state_size (h a) \<noteq> None) \<longrightarrow>
      (\<forall>b. layer_init kw = Inr b \<longrightarrow> init layer_init h cs kw = Inr \<lparr>layer = b, cells = cs\<rparr>))"
proof (intro conjI impI allI)
  assume bad: "\<exists>a\<in>set cs. call_fn (h a) = None \<or> cell_state_size (h a) = None"
  then have "check_cells h cs \<noteq> None"
    by (simp add: check_cells_None)
  then obtain e where e: "check_cells h cs = Some e"
    by auto
  show "\<exists>e. init layer_init h cs kw = Inl e"
    using e by (cases "layer_init kw") (simp_all add: init_def)
  fix b
  assume b: "layer_init kw = Inr b"
  have i: "init layer_init h cs kw = Inl e"
    using e b by (simp add: init_def)
  from check_cells_Some [OF e] i
  show "\<exists>a\<in>set cs.
          (init layer_init h cs kw = Inl (ValueError CallMethod a) \<and> call_fn (h a) = None) \<or>
          (init layer_init h cs kw = Inl (ValueError StateSizeAttr a) \<and>
           cell_state_size (h a) = None)"
    by auto
next
  fix b
  assume ok: "\<forall>a\<in>set cs. call_fn (h a) \<noteq> None \<and> cell_state_size (h a) \<noteq> None"
    and b: "layer_init kw = Inr b"
  from ok have "check_cells h cs = None"
    by (simp add: check_cells_None)
  with b show "init layer_init h cs kw = Inr \<lparr>layer = b, cells = cs\<rparr>"
    by (simp add: init_def)
qed

theorem init_checks_contract_witness:
  "init example_layer_init broken_heap [0, 1, 2] Map.empty = Inl (ValueError StateSizeAttr 1) \<and>
   init example_layer_init example_heap [0, 1] Map.empty =
     Inr \<lparr>layer = \<lparr>built = False, compute_dtype = ''float32'', base_config = Map.empty\<rparr>,
          cells = [0, 1]\<rparr>"
proof -
  have bad: "\<exists>a\<in>set [0, 1, 2::nat]. call_fn (broken_heap a) = None \<or> cell_state_size (broken_heap a) = None"
    by (simp add: broken_heap_def no_state_size_cell_def example_cell_def)
  have ok: "\<forall>a\<in>set [0, 1::nat]. call_fn (example_heap a) \<noteq> None \<and> cell_state_size (example_heap a) \<noteq> None"
    by (simp add: example_heap_def example_cell_def)
  have li: "example_layer_init Map.empty = Inr \<lparr>built = False, compute_dtype = ''float32'', base_config = Map.empty\<rparr>"
    by (simp add: example_layer_init_def)
  from init_checks_contract [of "[0, 1, 2]" broken_heap example_layer_init Map.empty] bad li
  have "\<exists>a\<in>set [0, 1, 2::nat].
            (init example_layer_init broken_heap [0, 1, 2] Map.empty = Inl (ValueError CallMethod a) \<and> call_fn (broken_heap a) = None) \<or>
            (init example_layer_init broken_heap [0, 1, 2] Map.empty = Inl (ValueError StateSizeAttr a) \<and>
             cell_state_size (broken_heap a) = None)"
    by blast
  then have 1: "init example_layer_init broken_heap [0, 1, 2] Map.empty = Inl (ValueError StateSizeAttr 1)"
    by (simp add: broken_heap_def no_state_size_cell_def example_cell_def)
  from init_checks_contract [of "[0, 1]" example_heap example_layer_init Map.empty] ok li
  have 2: "init example_layer_init example_heap [0, 1] Map.empty =
     Inr \<lparr>layer = \<lparr>built = False, compute_dtype = ''float32'', base_config = Map.empty\<rparr>,
          cells = [0, 1]\<rparr>"
    by blast
  from 1 2 show ?thesis by simp
qed

subsection \<open>Output size\<close>

lemma output_size_nonempty:
  "cells self \<noteq> [] \<Longrightarrow> output_size h self = resolve_output_size (h (last (cells self)))"
  by (cases "cells self") (simp_all add: output_size_def)

text \<open>
  Claim C2. With at least one cell, \<^verbatim>\<open>output_size\<close> of the composite is resolved on the
  last cell: its own \<^verbatim>\<open>output_size\<close> when the attribute is there and is not \<^verbatim>\<open>None\<close>;
  otherwise the first element of its \<^verbatim>\<open>state_size\<close> when that is a list or a tuple with
  a first element; otherwise the \<^verbatim>\<open>state_size\<close> itself.
\<close>

theorem output_size_precedence:
  assumes "cells self \<noteq> []"
  shows "(\<forall>v. cell_output_size (h (last (cells self))) = Some v \<and> v \<noteq> VNone \<longrightarrow>
            output_size h self = Inr v) \<and>
         (cell_output_size (h (last (cells self))) = None \<or>
          cell_output_size (h (last (cells self))) = Some VNone \<longrightarrow>
            (\<forall>x xs. cell_state_size (h (last (cells self))) = Some (VList (x # xs)) \<or>
                    cell_state_size (h (last (cells self))) = Some (VTuple (x # xs)) \<longrightarrow>
                      output_size h self = Inr x) \<and>
            (\<forall>v. cell_state_size (h (last (cells self))) = Some v \<and>
                  (\<forall>xs. v \<noteq> VList xs \<and> v \<noteq> VTuple xs) \<longrightarrow>
                      output_size h self = Inr v))"
proof -
  let ?c = "h (last (cells self))"
  have o: "output_size h self = resolve_output_size ?c"
    using assms by (rule output_size_nonempty)
  have 1: "output_size h self = Inr v" if "cell_output_size ?c = Some v" "v \<noteq> VNone" for v
    using that by (cases v) (simp_all add: o resolve_output_size_def)
  have r: "resolve_output_size ?c = output_from_state_size ?c"
    if "cell_output_size ?c = None \<or> cell_output_size ?c = Some VNone"
    using that by (auto simp: resolve_output_size_def)
  have 2: "output_from_state_size ?c = Inr x"
    if "cell_state_size ?c = Some (VList (x # xs)) \<or> cell_state_size ?c = Some (VTuple (x # xs))"
    for x xs
    using that by (auto simp: output_from_state_size_def)
  have 3: "output_from_state_size ?c = Inr v"
    if "cell_state_size ?c = Some v" "\<forall>xs. v \<noteq> VList xs \<and> v \<noteq> VTuple xs" for v
    using that by (cases v) (simp_all add: output_from_state_size_def)
  show ?thesis
    using 1 2 3 r o by metis
qed

theorem output_size_precedence_witness:
  "output_size sized_heap \<lparr>layer = example_base, cells = [2, 1, 0]\<rparr> = Inr (VInt 16) \<and>
   output_size sized_heap \<lparr>layer = example_base, cells = [0, 1]\<rparr> = Inr (VInt 7) \<and>
   output_size sized_heap \<lparr>layer = example_base, cells = [0, 2]\<rparr> = Inr (VInt 5)"
proof -
  have ne: "cells \<lparr>layer = example_base, cells = [2, 1, 0]\<rparr> \<noteq> []" "cells \<lparr>layer = example_base, cells = [0, 1]\<rparr> \<noteq> []"
    "cells \<lparr>layer = example_base, cells = [0, 2]\<rparr> \<noteq> []"
    by simp_all
  have 1: "output_size sized_heap \<lparr>layer = example_base, cells = [2, 1, 0]\<rparr> = Inr (VInt 16)"
    using output_size_precedence [OF ne(1), of sized_heap]
    by (simp add: sized_heap_def sized_cell_def)
  have 2: "output_size sized_heap \<lparr>layer = example_base, cells = [0, 1]\<rparr> = Inr (VInt 7)"
    using output_size_precedence [OF ne(2), of sized_heap]
    by (simp add: sized_heap_def sized_cell_def example_cell_def)
  have 3: "output_size sized_heap \<lparr>layer = example_base, cells = [0, 2]\<rparr> = Inr (VInt 5)"
    using output_size_precedence [OF ne(3), of sized_heap]
    by (simp add: sized_heap_def sized_cell_def example_cell_def)
  from 1 2 3 show ?thesis by simp
qed

text \<open>
  Claim C10. Construction from the empty list of cells succeeds once the base class accepts
  the keyword arguments, and on the result \<^verbatim>\<open>output_size\<close> raises the \<^verbatim>\<open>IndexError\<close>
  of \<^verbatim>\<open>self.cells[-1]\<close>; with at least one cell that error never occurs.
\<close>

theorem empty_composite_output_size:
  "(\<forall>b. layer_init kw = Inr b \<longrightarrow> init layer_init h [] kw = Inr \<lparr>layer = b, cells = []\<rparr>) \<and>
   (cells self = [] \<longrightarrow> output_size h self = Inl (IndexError CellsLast)) \<and>
   (cells self \<noteq> [] \<longrightarrow> output_size h self \<noteq> Inl (IndexError CellsLast))"
proof (intro conjI impI allI)
  fix b assume "layer_init kw = Inr b"
  then show "init layer_init h [] kw = Inr \<lparr>layer = b, cells = []\<rparr>"
    by (simp add: init_def)
next
  assume "cells self = []"
  then show "output_size h self = Inl (IndexError CellsLast)"
    by (simp add: output_size_def)
next
  assume ne: "cells self \<noteq> []"
  have "resolve_output_size c \<noteq> Inl (IndexError CellsLast)" for c
    by (auto simp: resolve_output_size_def output_from_state_size_def
          split: option.splits val.splits list.splits)
  then show "output_size h self \<noteq> Inl (IndexError CellsLast)"
    using ne by (simp add: output_size_nonempty)
qed

theorem empty_composite_output_size_witness:
  "init example_layer_init example_heap [] Map.empty =
     Inr \<lparr>layer = \<lparr>built = False, compute_dtype = ''float32'', base_config = Map.empty\<rparr>, cells = []\<rparr> \<and>
   output_size example_heap \<lparr>layer = example_base, cells = []\<rparr> = Inl (IndexError CellsLast) \<and>
   output_size example_heap \<lparr>layer = example_base, cells = [0]\<rparr> \<noteq> Inl (IndexError CellsLast)"
proof -
  have li: "example_layer_init Map.empty =
      Inr \<lparr>built = False, compute_dtype = ''float32'', base_config = Map.empty\<rparr>"
    by (simp add: example_layer_init_def)
  have 1: "init example_layer_init example_heap [] Map.empty =
     Inr \<lparr>layer = \<lparr>built = False, compute_dtype = ''float32'', base_config = Map.empty\<rparr>, cells = []\<rparr>"
    using empty_composite_output_size [where layer_init = example_layer_init and kw = Map.empty and h = example_heap] li by blast
  have 2: "output_size example_heap \<lparr>layer = example_base, cells = []\<rparr> = Inl (IndexError CellsLast)"
    using empty_composite_output_size [where self = "\<lparr>layer = example_base, cells = []\<rparr>" and h = example_heap] by simp
  have 3: "output_size example_heap \<lparr>layer = example_base, cells = [0]\<rparr> \<noteq> Inl (IndexError CellsLast)"
    using empty_composite_output_size [where self = "\<lparr>layer = example_base, cells = [0]\<rparr>" and h = example_heap] by simp
  from 1 2 3 show ?thesis by simp
qed

subsection \<open>Initial state\<close>

lemma initial_states_loop_Inr:
  "initial_states_loop zr h dt bs as acc = Inr sts \<longleftrightarrow>
     (\<exists>vs. sts = acc @ vs \<and> list_all2 (\<lambda>a v. cell_initial_state zr dt bs (h a) = Inr v) as vs)"
proof (induction as arbitrary: acc)
  case Nil
  then show ?case by auto
next
  case (Cons a as)
  show ?case
  proof (cases "cell_initial_state zr dt bs (h a)")
    case (Inl e)
    then show ?thesis by (auto simp: list_all2_Cons1)
  next
    case (Inr v)
    then show ?thesis by (auto simp: Cons.IH list_all2_Cons1)
  qed
qed

lemma zeros_loop_returns:
  "\<forall>d\<in>set ds. zr [bs, d] dt = None \<Longrightarrow>
     zeros_loop zr dt bs ds zs = Inr (zs @ map (\<lambda>d. VZeros [bs, d] dt) ds)"
  by (induction ds arbitrary: zs) (simp_all add: ops_zeros_def)

lemma zeros_loop_raises:
  "\<exists>d\<in>set ds. zr [bs, d] dt \<noteq> None \<Longrightarrow> \<exists>e. zeros_loop zr dt bs ds zs = Inl e"
proof (induction ds arbitrary: zs)
  case Nil
  then show ?case by simp
next
  case (Cons d ds)
  show ?case
  proof (cases "zr [bs, d] dt")
    case None
    with Cons.prems have "\<exists>d\<in>set ds. zr [bs, d] dt \<noteq> None" by auto
    then have "\<exists>e. zeros_loop zr dt bs ds (zs @ [VZeros [bs, d] dt]) = Inl e"
      by (rule Cons.IH)
    with None show ?thesis by (simp add: ops_zeros_def)
  next
    case (Some e)
    then show ?thesis by (simp add: ops_zeros_def)
  qed
qed

lemma cell_initial_state_generator:
  "get_initial_state_fn c = Some g \<Longrightarrow> cell_initial_state zr dt bs c = g bs"
  by (simp add: cell_initial_state_def)

lemma py_iter_state_dims:
  "isinstance_int sz \<or> (\<exists>xs. sz = VList xs \<or> sz = VTuple xs) \<Longrightarrow>
     py_iter (if isinstance_int sz then VList [sz] else sz) = Inr (state_dims sz)"
  by (cases sz) (auto simp: isinstance_int_def py_iter_def state_dims_def)

lemma cell_initial_state_zeros:
  assumes "get_initial_state_fn c = None" "cell_state_size c = Some sz"
    and "isinstance_int sz \<or> (\<exists>xs. sz = VList xs \<or> sz = VTuple xs)"
    and "\<forall>d\<in>set (state_dims sz). zr [bs, d] dt = None"
  shows "cell_initial_state zr dt bs c = Inr (VList (map (\<lambda>d. VZeros [bs, d] dt) (state_dims sz)))"
proof -
  have "zeros_loop zr dt bs (state_dims sz) [] =
          Inr ([] @ map (\<lambda>d. VZeros [bs, d] dt) (state_dims sz))"
    using assms(4) by (rule zeros_loop_returns)
  with assms(1,2) py_iter_state_dims [OF assms(3)] show ?thesis
    by (simp add: cell_initial_state_def)
qed

lemma cell_initial_state_zeros_raises:
  assumes "get_initial_state_fn c = None" "cell_state_size c = Some sz"
    and "isinstance_int sz \<or> (\<exists>xs. sz = VList xs \<or> sz = VTuple xs)"
    and "\<exists>d\<in>set (state_dims sz). zr [bs, d] dt \<noteq> None"
  shows "\<exists>e. cell_initial_state zr dt bs c = Inl e"
proof -
  have "\<exists>e. zeros_loop zr dt bs (state_dims sz) [] = Inl e"
    using assms(4) by (rule zeros_loop_raises)
  with assms(1,2) py_iter_state_dims [OF assms(3)] show ?thesis
    by (auto simp: cell_initial_state_def)
qed

lemma initial_states_loop_cell:
  assumes "initial_states_loop zr h dt bs as acc = Inr sts" "a \<in> set as"
  shows "\<exists>v. cell_initial_state zr dt bs (h a) = Inr v"
proof -
  from assms(1) obtain vs
    where all2: "list_all2 (\<lambda>a v. cell_initial_state zr dt bs (h a) = Inr v) as vs"
    by (auto simp: initial_states_loop_Inr)
  from assms(2) obtain i where i: "i < length as" "as ! i = a"
    by (auto simp: in_set_conv_nth)
  from list_all2_nthD [OF all2 i(1)] i(2) show ?thesis
    by auto
qed

lemma state_dims_arity: "length (state_dims sz) = state_arity sz"
  by (cases sz) (simp_all add: state_dims_def state_arity_def)

text \<open>
  Claim C5, as amended. Let every cell either have a custom initial-state generator that
  returns, or have a \<^verbatim>\<open>state_size\<close> that is an integer, a list or a tuple, for each
  dimension \<open>d\<close> of which the tensor runtime returns a zero tensor of shape (batch size,
  \<open>d\<close>). Then \<^verbatim>\<open>get_initial_state\<close> returns a list with exactly one element per cell,
  aligned by position. The element of a cell without a generator is a list of zero tensors of
  shape (batch size, dimension), one per declared dimension, so its length is the declared
  state arity. The element of a cell with a generator is what the generator returned, as it
  is. And when the runtime raises for the batch size and some dimension of a cell without a
  generator, as it does for the batch size \<^verbatim>\<open>None\<close>, \<^verbatim>\<open>get_initial_state\<close> raises and
  returns no list.
\<close>

theorem get_initial_state_per_cell:
  "((\<forall>a\<in>set (cells self).
       (case get_initial_state_fn (h a) of
          Some g \<Rightarrow> \<exists>v. g bs = Inr v
        | None \<Rightarrow> \<exists>sz. cell_state_size (h a) = Some sz \<and>
                    (isinstance_int sz \<or> (\<exists>xs. sz = VList xs \<or> sz = VTuple xs)) \<and>
                    (\<forall>d\<in>set (state_dims sz).
                       zeros_raises [bs, d] (compute_dtype (layer self)) = None))) \<longrightarrow>
    (\<exists>sts. get_initial_state zeros_raises h self bs = Inr sts \<and>
       length sts = length (cells self) \<and>
       (\<forall>i<length (cells self).
          (case get_initial_state_fn (h (cells self ! i)) of
             Some g \<Rightarrow> g bs = Inr (sts ! i)
           | None \<Rightarrow>
               (\<exists>sz zs. cell_state_size (h (cells self ! i)) = Some sz \<and>
                  sts ! i = VList zs \<and> length zs = state_arity sz \<and>
                  zs = map (\<lambda>d. VZeros [bs, d] (compute_dtype (layer self))) (state_dims sz)))))) \<and>
   ((\<exists>a\<in>set (cells self). \<exists>sz.
       get_initial_state_fn (h a) = None \<and> cell_state_size (h a) = Some sz \<and>
       (isinstance_int sz \<or> (\<exists>xs. sz = VList xs \<or> sz = VTuple xs)) \<and>
       (\<exists>d\<in>set (state_dims sz).
          zeros_raises [bs, d] (compute_dtype (layer self)) \<noteq> None)) \<longrightarrow>
    (\<exists>e. get_initial_state zeros_raises h self bs = Inl e))"
proof (intro conjI impI)
  assume "\<exists>a\<in>set (cells self). \<exists>sz.
       get_initial_state_fn (h a) = None \<and> cell_state_size (h a) = Some sz \<and>
       (isinstance_int sz \<or> (\<exists>xs. sz = VList xs \<or> sz = VTuple xs)) \<and>
       (\<exists>d\<in>set (state_dims sz).
          zeros_raises [bs, d] (compute_dtype (layer self)) \<noteq> None)"
  then obtain a sz where a: "a \<in> set (cells self)" "get_initial_state_fn (h a) = None"
    "cell_state_size (h a) = Some sz"
    "isinstance_int sz \<or> (\<exists>xs. sz = VList xs \<or> sz = VTuple xs)"
    "\<exists>d\<in>set (state_dims sz). zeros_raises [bs, d] (compute_dtype (layer self)) \<noteq> None"
    by blast
  have fails: "\<exists>e. cell_initial_state zeros_raises (compute_dtype (layer self)) bs (h a) = Inl e"
    using a(2-5) by (rule cell_initial_state_zeros_raises)
  show "\<exists>e. get_initial_state zeros_raises h self bs = Inl e"
  proof (cases "get_initial_state zeros_raises h self bs")
    case (Inl e)
    then show ?thesis by blast
  next
    case (Inr sts)
    then have "\<exists>v. cell_initial_state zeros_raises (compute_dtype (layer self)) bs (h a) = Inr v"
      using a(1) unfolding get_initial_state_def by (rule initial_states_loop_cell)
    with fails show ?thesis by auto
  qed
next
  assume ok: "\<forall>a\<in>set (cells self).
       (case get_initial_state_fn (h a) of
          Some g \<Rightarrow> \<exists>v. g bs = Inr v
        | None \<Rightarrow> \<exists>sz. cell_state_size (h a) = Some sz \<and>
                    (isinstance_int sz \<or> (\<exists>xs. sz = VList xs \<or> sz = VTuple xs)) \<and>
                    (\<forall>d\<in>set (state_dims sz).
                       zeros_raises [bs, d] (compute_dtype (layer self)) = None))"
  let ?dt = "compute_dtype (layer self)"
  let ?zr = zeros_raises
  have each: "\<exists>v. cell_initial_state ?zr ?dt bs (h a) = Inr v" if "a \<in> set (cells self)" for a
  proof (cases "get_initial_state_fn (h a)")
    case None
    with ok that obtain sz where "cell_state_size (h a) = Some sz"
      "isinstance_int sz \<or> (\<exists>xs. sz = VList xs \<or> sz = VTuple xs)"
      "\<forall>d\<in>set (state_dims sz). ?zr [bs, d] ?dt = None"
      by fastforce
    with None show ?thesis by (auto simp: cell_initial_state_zeros)
  next
    case (Some g)
    with ok that show ?thesis by (fastforce simp: cell_initial_state_generator)
  qed
  have "\<exists>vs. list_all2 (\<lambda>a v. cell_initial_state ?zr ?dt bs (h a) = Inr v) as vs"
    if "set as \<subseteq> set (cells self)" for as
    using that
  proof (induction as)
    case Nil
    then show ?case by simp
  next
    case (Cons a as)
    from Cons obtain vs
      where vs: "list_all2 (\<lambda>a v. cell_initial_state ?zr ?dt bs (h a) = Inr v) as vs"
      by auto
    from Cons.prems each [of a] obtain v where v: "cell_initial_state ?zr ?dt bs (h a) = Inr v"
      by auto
    from vs v
    have "list_all2 (\<lambda>a v. cell_initial_state ?zr ?dt bs (h a) = Inr v) (a # as) (v # vs)"
      by simp
    then show ?case by blast
  qed
  then obtain sts
    where all2: "list_all2 (\<lambda>a v. cell_initial_state ?zr ?dt bs (h a) = Inr v) (cells self) sts"
    by blast
  then have ret: "get_initial_state ?zr h self bs = Inr sts"
    by (auto simp: get_initial_state_def initial_states_loop_Inr)
  have len: "length sts = length (cells self)"
    using all2 by (simp add: list_all2_lengthD)
  have nth: "cell_initial_state ?zr ?dt bs (h (cells self ! i)) = Inr (sts ! i)"
    if "i < length (cells self)" for i
    using list_all2_nthD [OF all2 that] .
  have elt: "(case get_initial_state_fn (h (cells self ! i)) of
                 Some g \<Rightarrow> g bs = Inr (sts ! i)
               | None \<Rightarrow>
                   (\<exists>sz zs. cell_state_size (h (cells self ! i)) = Some sz \<and>
                      sts ! i = VList zs \<and> length zs = state_arity sz \<and>
                      zs = map (\<lambda>d. VZeros [bs, d] ?dt) (state_dims sz)))"
    if i: "i < length (cells self)" for i
  proof (cases "get_initial_state_fn (h (cells self ! i))")
    case None
    from i have "cells self ! i \<in> set (cells self)" by simp
    with ok None obtain sz where sz: "cell_state_size (h (cells self ! i)) = Some sz"
      "isinstance_int sz \<or> (\<exists>xs. sz = VList xs \<or> sz = VTuple xs)"
      "\<forall>d\<in>set (state_dims sz). ?zr [bs, d] ?dt = None"
      by fastforce
    have "cell_initial_state ?zr ?dt bs (h (cells self ! i)) =
            Inr (VList (map (\<lambda>d. VZeros [bs, d] ?dt) (state_dims sz)))"
      using None sz by (rule cell_initial_state_zeros)
    with nth [OF i]
    have "sts ! i = VList (map (\<lambda>d. VZeros [bs, d] ?dt) (state_dims sz))"
      by simp
    with None sz(1) show ?thesis
      by (simp add: state_dims_arity)
  next
    case (Some g)
    with nth [OF i] show ?thesis
      by (simp add: cell_initial_state_generator)
  qed
  from ret len elt
  show "\<exists>sts. get_initial_state zeros_raises h self bs = Inr sts \<and>
       length sts = length (cells self) \<and>
       (\<forall>i<length (cells self).
          (case get_initial_state_fn (h (cells self ! i)) of
             Some g \<Rightarrow> g bs = Inr (sts ! i)
           | None \<Rightarrow>
               (\<exists>sz zs. cell_state_size (h (cells self ! i)) = Some sz \<and>
                  sts ! i = VList zs \<and> length zs = state_arity sz \<and>
                  zs = map (\<lambda>d. VZeros [bs, d] (compute_dtype (layer self))) (state_dims sz))))"
    by blast
qed

theorem get_initial_state_per_cell_witness:
  "get_initial_state example_zeros_raises generator_heap
     \<lparr>layer = example_base, cells = [0, 1]\<rparr> (VInt 3) =
     Inr [VTensor 0, VList [VZeros [VInt 3, VInt 5] ''float32'', VZeros [VInt 3, VInt 6] ''float32'']] \<and>
   (\<exists>e. get_initial_state example_zeros_raises generator_heap
           \<lparr>layer = example_base, cells = [0, 1]\<rparr> VNone = Inl e)"
proof -
  let ?self = "\<lparr>layer = example_base, cells = [0, 1]\<rparr>"
  have ok: "\<forall>a\<in>set (cells ?self).
             (case get_initial_state_fn (generator_heap a) of
                Some g \<Rightarrow> \<exists>v. g (VInt 3) = Inr v
              | None \<Rightarrow> \<exists>sz. cell_state_size (generator_heap a) = Some sz \<and>
                          (isinstance_int sz \<or> (\<exists>xs. sz = VList xs \<or> sz = VTuple xs)) \<and>
                          (\<forall>d\<in>set (state_dims sz).
                             example_zeros_raises [VInt 3, d] (compute_dtype (layer ?self)) = None))"
    by (simp add: generator_heap_def generator_cell_def example_cell_def state_dims_def
        example_zeros_raises_def)
  from get_initial_state_per_cell [where self = ?self and h = generator_heap and bs = "VInt 3"
      and zeros_raises = example_zeros_raises] ok
  obtain sts where sts: "get_initial_state example_zeros_raises generator_heap ?self (VInt 3) = Inr sts"
    "length sts = length (cells ?self)"
    and elt: "\<forall>i<length (cells ?self).
              (case get_initial_state_fn (generator_heap (cells ?self ! i)) of
                 Some g \<Rightarrow> g (VInt 3) = Inr (sts ! i)
               | None \<Rightarrow>
                   (\<exists>sz zs. cell_state_size (generator_heap (cells ?self ! i)) = Some sz \<and>
                      sts ! i = VList zs \<and> length zs = state_arity sz \<and>
                      zs = map (\<lambda>d. VZeros [VInt 3, d] (compute_dtype (layer ?self))) (state_dims sz)))"
    by blast
  from sts(2) obtain x y where xy: "sts = [x, y]"
    by (cases sts; cases "tl sts"; cases "tl (tl sts)") auto
  from elt have "(case get_initial_state_fn (generator_heap 0) of
                 Some g \<Rightarrow> g (VInt 3) = Inr x | None \<Rightarrow> True)"
    by (auto simp: xy split: option.splits dest: spec [of _ 0])
  then have x: "x = VTensor 0"
    by (simp add: generator_heap_def generator_cell_def)
  from elt have "(case get_initial_state_fn (generator_heap 1) of
                 Some g \<Rightarrow> True
               | None \<Rightarrow>
                   (\<exists>sz zs. cell_state_size (generator_heap 1) = Some sz \<and>
                      y = VList zs \<and>
                      zs = map (\<lambda>d. VZeros [VInt 3, d] (compute_dtype (layer ?self))) (state_dims sz)))"
    by (auto simp: xy split: option.splits dest: spec [of _ 1])
  then have y: "y = VList [VZeros [VInt 3, VInt 5] ''float32'', VZeros [VInt 3, VInt 6] ''float32'']"
    by (auto simp add: generator_heap_def example_cell_def example_base_def state_dims_def)
  have raises: "\<exists>a\<in>set (cells ?self). \<exists>sz.
       get_initial_state_fn (generator_heap a) = None \<and>
       cell_state_size (generator_heap a) = Some sz \<and>
       (isinstance_int sz \<or> (\<exists>xs. sz = VList xs \<or> sz = VTuple xs)) \<and>
       (\<exists>d\<in>set (state_dims sz).
          example_zeros_raises [VNone, d] (compute_dtype (layer ?self)) \<noteq> None)"
    by (auto simp: generator_heap_def example_cell_def state_dims_def example_zeros_raises_def)
  from get_initial_state_per_cell [where self = ?self and h = generator_heap and bs = VNone
      and zeros_raises = example_zeros_raises] raises
  have r: "\<exists>e. get_initial_state example_zeros_raises generator_heap ?self VNone = Inl e"
    by blast
  from sts(1) xy x y r show ?thesis by simp
qed

text \<open>
  The claim as first stated fails for a cell with a generator: the cell below declares two
  state tensors and its generator returns a single tensor, which \<^verbatim>\<open>get_initial_state\<close>
  passes on unchanged. The cell passes the checks of \<^verbatim>\<open>__init__\<close>, which look at the
  presence of \<^verbatim>\<open>call\<close> and \<^verbatim>\<open>state_size\<close> only, and lines 66-70 take the generator's
  result without comparing it with \<^verbatim>\<open>state_size\<close>.
\<close>

theorem get_initial_state_generator_counterexample:
  "get_initial_state example_zeros_raises generator_heap
     \<lparr>layer = example_base, cells = [0]\<rparr> (VInt 3) = Inr [VTensor 0] \<and>
   cell_state_size (generator_heap 0) = Some (VList [VInt 4, VInt 4]) \<and>
   state_arity (VList [VInt 4, VInt 4]) = 2 \<and>
   length (normalize_states (VTensor 0)) = 1"
  by (simp add: get_initial_state_def cell_initial_state_def generator_heap_def generator_cell_def
      example_cell_def state_arity_def normalize_states_def)

text \<open>
  Claim C6. For two cells without generators whose \<^verbatim>\<open>state_size\<close> are 4 and 8, and batch
  size 3, on a runtime that allocates tensors of the shapes (3, 4) and (3, 8),
  \<^verbatim>\<open>get_initial_state\<close> returns the zero tensor of shape (3, 4) and the zero tensor
  of shape (3, 8), in this order and in the compute dtype of the composite; each tensor is the
  only element of the list that is the state of its cell.
\<close>

theorem get_initial_state_two_cells:
  assumes "cells self = [a1, a2]"
    and "get_initial_state_fn (h a1) = None" "cell_state_size (h a1) = Some (VInt 4)"
    and "get_initial_state_fn (h a2) = None" "cell_state_size (h a2) = Some (VInt 8)"
    and "zeros_raises [VInt 3, VInt 4] (compute_dtype (layer self)) = None"
    and "zeros_raises [VInt 3, VInt 8] (compute_dtype (layer self)) = None"
  shows "get_initial_state zeros_raises h self (VInt 3) =
           Inr [VList [VZeros [VInt 3, VInt 4] (compute_dtype (layer self))],
                VList [VZeros [VInt 3, VInt 8] (compute_dtype (layer self))]] \<and>
         flatten (VList [VList [VZeros [VInt 3, VInt 4] (compute_dtype (layer self))],
                VList [VZeros [VInt 3, VInt 8] (compute_dtype (layer self))]]) =
           [VZeros [VInt 3, VInt 4] (compute_dtype (layer self)),
            VZeros [VInt 3, VInt 8] (compute_dtype (layer self))]"
  using assms
  by (simp add: get_initial_state_def cell_initial_state_def isinstance_int_def py_iter_def
      ops_zeros_def)

theorem get_initial_state_two_cells_witness:
  "get_initial_state example_zeros_raises example_heap
     \<lparr>layer = example_base, cells = [0, 1]\<rparr> (VInt 3) =
     Inr [VList [VZeros [VInt 3, VInt 4] ''float32''], VList [VZeros [VInt 3, VInt 8] ''float32'']]"
  using get_initial_state_two_cells [where self = "\<lparr>layer = example_base, cells = [0, 1]\<rparr>"
      and ?a1.0 = 0 and ?a2.0 = 1 and h = example_heap and zeros_raises = example_zeros_raises]
  by (simp add: example_heap_def example_cell_def example_base_def example_zeros_raises_def)

subsection \<open>The step\<close>

lemma forward_kwargs_training:
  "forward_kwargs c t kw ''training'' =
     (if is_layer c \<and> call_has_training_arg c then Some t else None)"
  by (simp add: forward_kwargs_def)

lemma forward_kwargs_other:
  "k \<noteq> ''training'' \<Longrightarrow> forward_kwargs c t kw k = kw k"
  by (simp add: forward_kwargs_def)

lemma forward_kwargs_cong:
  assumes "\<forall>k. k \<noteq> ''training'' \<longrightarrow> kwr k = kw k"
  shows "forward_kwargs c t kwr = forward_kwargs c t kw"
proof
  fix k
  show "forward_kwargs c t kwr k = forward_kwargs c t kw k"
    using assms by (cases "k = ''training''") (simp_all add: forward_kwargs_def)
qed

lemma call_loop_chain:
  assumes "length ss = length as" "length xs = Suc (length as)" "length ns = length as"
    and "\<forall>i<length as. \<exists>f. cell_call_fn (h (as ! i)) = Inr f \<and>
           f (xs ! i) (normalize_states (ss ! i)) (forward_kwargs (h (as ! i)) t kw) =
             Inr (xs ! Suc i, ns ! i)"
    and "\<forall>k. k \<noteq> ''training'' \<longrightarrow> kwr k = kw k"
  shows "call_loop h t (zip as ss) (xs ! 0) kwr acc calls =
           (Inr (xs ! length as, acc @ ns),
            calls @ map (\<lambda>i. \<lparr>inv_cell = as ! i, inv_inputs = xs ! i,
                               inv_states = normalize_states (ss ! i),
                               inv_kwargs = forward_kwargs (h (as ! i)) t kw\<rparr>) [0..<length as])"
  using assms
proof (induction as arbitrary: ss xs ns kwr acc calls)
  case Nil
  then show ?case by simp
next
  case (Cons a as)
  from Cons.prems(1) obtain s ss' where ss: "ss = s # ss'" and l1: "length ss' = length as"
    by (cases ss) auto
  from Cons.prems(2) obtain x xs' where xs: "xs = x # xs'" and l2: "length xs' = Suc (length as)"
    by (cases xs) auto
  from Cons.prems(3) obtain n ns' where ns: "ns = n # ns'" and l3: "length ns' = length as"
    by (cases ns) auto
  let ?kw' = "forward_kwargs (h a) t kw"
  have fk: "forward_kwargs (h a) t kwr = ?kw'"
    using Cons.prems(5) by (rule forward_kwargs_cong)
  from Cons.prems(4) have "\<exists>f. cell_call_fn (h ((a # as) ! 0)) = Inr f \<and>
           f (xs ! 0) (normalize_states (ss ! 0)) (forward_kwargs (h ((a # as) ! 0)) t kw) =
             Inr (xs ! Suc 0, ns ! 0)"
    by blast
  then obtain f where f: "cell_call_fn (h a) = Inr f"
    "f x (normalize_states s) ?kw' = Inr (xs' ! 0, n)"
    by (auto simp: ss xs ns)
  have rest: "\<forall>i<length as. \<exists>f. cell_call_fn (h (as ! i)) = Inr f \<and>
           f (xs' ! i) (normalize_states (ss' ! i)) (forward_kwargs (h (as ! i)) t kw) =
             Inr (xs' ! Suc i, ns' ! i)"
  proof (intro allI impI)
    fix i assume "i < length as"
    then have "Suc i < length (a # as)" by simp
    with Cons.prems(4) have "\<exists>f. cell_call_fn (h ((a # as) ! Suc i)) = Inr f \<and>
           f (xs ! Suc i) (normalize_states (ss ! Suc i)) (forward_kwargs (h ((a # as) ! Suc i)) t kw) =
             Inr (xs ! Suc (Suc i), ns ! Suc i)"
      by blast
    then show "\<exists>f. cell_call_fn (h (as ! i)) = Inr f \<and>
           f (xs' ! i) (normalize_states (ss' ! i)) (forward_kwargs (h (as ! i)) t kw) =
             Inr (xs' ! Suc i, ns' ! i)"
      by (simp add: ss xs ns)
  qed
  have agree: "\<forall>k. k \<noteq> ''training'' \<longrightarrow> ?kw' k = kw k"
    by (simp add: forward_kwargs_other)
  note IH = Cons.IH [OF l1 l2 l3 rest agree]
  have "call_loop h t (zip (a # as) ss) (xs ! 0) kwr acc calls =
          call_loop h t (zip as ss') (xs' ! 0) ?kw' (acc @ [n])
            (calls @ [\<lparr>inv_cell = a, inv_inputs = x, inv_states = normalize_states s,
                        inv_kwargs = ?kw'\<rparr>])"
    by (simp add: ss xs f fk Let_def)
  also have "\<dots> = (Inr (xs' ! length as, (acc @ [n]) @ ns'),
            (calls @ [\<lparr>inv_cell = a, inv_inputs = x, inv_states = normalize_states s,
                        inv_kwargs = ?kw'\<rparr>]) @
            map (\<lambda>i. \<lparr>inv_cell = as ! i, inv_inputs = xs' ! i,
                               inv_states = normalize_states (ss' ! i),
                               inv_kwargs = forward_kwargs (h (as ! i)) t kw\<rparr>) [0..<length as])"
    by (rule IH)
  also have "\<dots> = (Inr (xs ! length (a # as), acc @ ns),
            calls @ map (\<lambda>i. \<lparr>inv_cell = (a # as) ! i, inv_inputs = xs ! i,
                               inv_states = normalize_states (ss ! i),
                               inv_kwargs = forward_kwargs (h ((a # as) ! i)) t kw\<rparr>)
                      [0..<length (a # as)])"
    by (simp add: ss xs ns map_upt_Suc del: upt_Suc)
  finally show ?case .
qed

text \<open>
  Claim C1. Take one state per cell, and let \<open>xs\<close> be the values passed along the stack:
  \<open>xs ! 0\<close> is the input of the call, and the entry point of cell \<open>i\<close>, called with
  \<open>xs ! i\<close>, the normalized state of cell \<open>i\<close> and the forwarded keyword arguments,
  returns \<open>xs ! (i + 1)\<close> and the new state \<open>ns ! i\<close>. Then \<^verbatim>\<open>call\<close> calls the cells in
  the order of the list, each exactly once and each with the output of the one before it, and
  returns the output of the last cell with the list of the new states in cell order. The state
  handed to a cell is normalized: a list or tuple becomes the list of its elements, any other
  value the list with that value alone.
\<close>

theorem call_threads_cells:
  assumes "length states = length (cells self)"
    and "length xs = Suc (length (cells self))" and "xs ! 0 = inputs"
    and "length ns = length (cells self)"
    and "\<forall>i<length (cells self). \<exists>f. cell_call_fn (h (cells self ! i)) = Inr f \<and>
           f (xs ! i) (normalize_states (states ! i))
             (forward_kwargs (h (cells self ! i)) training kw) = Inr (xs ! Suc i, ns ! i)"
  shows "call h self inputs states training kw =
           (Inr (xs ! length (cells self), ns),
            map (\<lambda>i. \<lparr>inv_cell = cells self ! i, inv_inputs = xs ! i,
                       inv_states = normalize_states (states ! i),
                       inv_kwargs = forward_kwargs (h (cells self ! i)) training kw\<rparr>)
              [0..<length (cells self)]) \<and>
         (\<forall>ys. normalize_states (VList ys) = ys \<and> normalize_states (VTuple ys) = ys) \<and>
         (\<forall>v. (\<forall>ys. v \<noteq> VList ys \<and> v \<noteq> VTuple ys) \<longrightarrow> normalize_states v = [v])"
proof -
  have "call_loop h training (zip (cells self) states) (xs ! 0) kw [] [] =
           (Inr (xs ! length (cells self), [] @ ns),
            [] @ map (\<lambda>i. \<lparr>inv_cell = cells self ! i, inv_inputs = xs ! i,
                       inv_states = normalize_states (states ! i),
                       inv_kwargs = forward_kwargs (h (cells self ! i)) training kw\<rparr>)
              [0..<length (cells self)])"
    using assms(1,2,4,5) by (intro call_loop_chain) simp_all
  then have 1: "call h self inputs states training kw =
           (Inr (xs ! length (cells self), ns),
            map (\<lambda>i. \<lparr>inv_cell = cells self ! i, inv_inputs = xs ! i,
                       inv_states = normalize_states (states ! i),
                       inv_kwargs = forward_kwargs (h (cells self ! i)) training kw\<rparr>)
              [0..<length (cells self)])"
    by (simp add: call_def assms(3))
  have 2: "normalize_states v = [v]" if "\<forall>ys. v \<noteq> VList ys \<and> v \<noteq> VTuple ys" for v
    using that by (cases v) (simp_all add: normalize_states_def)
  from 1 2 show ?thesis
    by (simp add: normalize_states_def)
qed

theorem call_threads_cells_witness:
  "call training_heap \<lparr>layer = example_base, cells = [0, 1]\<rparr> (VTensor 7)
     [VTensor 1, VTuple [VTensor 2, VTensor 3]] (VBool True) Map.empty =
   (Inr (VList [VList [VTensor 7, VTensor 1], VTensor 2, VTensor 3],
         [VList [VTensor 1], VList [VTensor 2, VTensor 3]]),
    [\<lparr>inv_cell = 0, inv_inputs = VTensor 7, inv_states = [VTensor 1],
       inv_kwargs = Map.empty\<rparr>,
     \<lparr>inv_cell = 1, inv_inputs = VList [VTensor 7, VTensor 1],
       inv_states = [VTensor 2, VTensor 3],
       inv_kwargs = [''training'' \<mapsto> VBool True]\<rparr>])"
proof -
  let ?self = "\<lparr>layer = example_base, cells = [0, 1]\<rparr>"
  let ?states = "[VTensor 1, VTuple [VTensor 2, VTensor 3]]"
  let ?xs = "[VTensor 7, VList [VTensor 7, VTensor 1],
              VList [VList [VTensor 7, VTensor 1], VTensor 2, VTensor 3]]"
  let ?ns = "[VList [VTensor 1], VList [VTensor 2, VTensor 3]]"
  have 1: "length ?states = length (cells ?self)" by simp
  have 2: "length ?xs = Suc (length (cells ?self))" by simp
  have 3: "?xs ! 0 = VTensor 7" by simp
  have 4: "length ?ns = length (cells ?self)" by simp
  have 5: "\<forall>i<length (cells ?self). \<exists>f. cell_call_fn (training_heap (cells ?self ! i)) = Inr f \<and>
           f (?xs ! i) (normalize_states (?states ! i))
             (forward_kwargs (training_heap (cells ?self ! i)) (VBool True) Map.empty) =
           Inr (?xs ! Suc i, ?ns ! i)"
    by (simp add: less_Suc_eq training_heap_def example_cell_def cell_call_fn_def
        example_step_def normalize_states_def)
  have k0: "forward_kwargs (training_heap 0) (VBool True) Map.empty = Map.empty"
    by (simp add: forward_kwargs_def training_heap_def example_cell_def)
  have k1: "forward_kwargs (training_heap (Suc 0)) (VBool True) Map.empty = [''training'' \<mapsto> VBool True]"
    by (simp add: forward_kwargs_def training_heap_def example_cell_def)
  have u: "[0..<2] = [0, Suc 0]"
    by (simp add: upt_rec)
  from conjunct1 [OF call_threads_cells [OF 1 2 3 4 5]] show ?thesis
    by (simp add: k0 k1 u normalize_states_def)
qed

text \<open>The keyword arguments that reach a cell differ from those of the call only at \<^verbatim>\<open>training\<close>.\<close>

lemma call_loop_kwargs:
  assumes "\<forall>k. k \<noteq> ''training'' \<longrightarrow> kwr k = kw k"
  shows "\<forall>e\<in>set (snd (call_loop h t zs x kwr acc calls)). e \<in> set calls \<or>
           (inv_kwargs e ''training'' =
              (if is_layer (h (inv_cell e)) \<and> call_has_training_arg (h (inv_cell e))
               then Some t else None) \<and>
            (\<forall>k. k \<noteq> ''training'' \<longrightarrow> inv_kwargs e k = kw k))"
  using assms
proof (induction zs arbitrary: x kwr acc calls)
  case Nil
  then show ?case by simp
next
  case (Cons z zs)
  obtain a s where z: "z = (a, s)" by (cases z)
  let ?kw' = "forward_kwargs (h a) t kwr"
  let ?inv = "\<lparr>inv_cell = a, inv_inputs = x, inv_states = normalize_states s, inv_kwargs = ?kw'\<rparr>"
  have agree: "\<forall>k. k \<noteq> ''training'' \<longrightarrow> ?kw' k = kw k"
    using Cons.prems by (simp add: forward_kwargs_other)
  have inv: "inv_kwargs ?inv ''training'' =
              (if is_layer (h (inv_cell ?inv)) \<and> call_has_training_arg (h (inv_cell ?inv))
               then Some t else None) \<and>
            (\<forall>k. k \<noteq> ''training'' \<longrightarrow> inv_kwargs ?inv k = kw k)"
    using agree by (simp add: forward_kwargs_training)
  show ?case
  proof (cases "cell_call_fn (h a)")
    case (Inl e)
    then show ?thesis by (simp add: z)
  next
    case (Inr f)
    show ?thesis
    proof (cases "f x (normalize_states s) ?kw'")
      case (Inl e)
      with Inr inv show ?thesis by (auto simp: z Let_def)
    next
      case r: (Inr p)
      obtain out st where p: "p = (out, st)" by (cases p)
      from Cons.IH [OF agree, of out "acc @ [st]" "calls @ [?inv]"] inv
      show ?thesis
        using Inr r by (auto simp: z p Let_def)
    qed
  qed
qed

text \<open>
  Claim C7, as amended. In every call that \<^verbatim>\<open>call\<close> makes, the keyword arguments hold
  the training flag exactly when the cell is a \<^verbatim>\<open>Layer\<close> instance whose \<^verbatim>\<open>call\<close>
  signature has a \<^verbatim>\<open>training\<close> parameter; for every other cell the flag is removed, and
  the other keyword arguments pass unchanged. For two cells of which only the second accepts a
  training flag, the call returns when the two steps return on these arguments, and the
  first cell is called without the flag.
\<close>

theorem training_flag_forwarding:
  "(\<forall>e\<in>set (snd (call h self inputs states training kw)).
      inv_kwargs e ''training'' =
        (if is_layer (h (inv_cell e)) \<and> call_has_training_arg (h (inv_cell e))
         then Some training else None) \<and>
      (\<forall>k. k \<noteq> ''training'' \<longrightarrow> inv_kwargs e k = kw k)) \<and>
   (cells self = [a1, a2] \<and> \<not> call_has_training_arg (h a1) \<and> call_has_training_arg (h a2) \<and>
    cell_call_fn (h a1) = Inr f1 \<and> cell_call_fn (h a2) = Inr f2 \<and>
    f1 inputs (normalize_states s1) (kw(''training'' := None)) = Inr (y, n1) \<and>
    f2 y (normalize_states s2) (forward_kwargs (h a2) training kw) = Inr (z, n2) \<longrightarrow>
      call h self inputs [s1, s2] training kw =
        (Inr (z, [n1, n2]),
         [\<lparr>inv_cell = a1, inv_inputs = inputs, inv_states = normalize_states s1,
            inv_kwargs = kw(''training'' := None)\<rparr>,
          \<lparr>inv_cell = a2, inv_inputs = y, inv_states = normalize_states s2,
            inv_kwargs = forward_kwargs (h a2) training kw\<rparr>]))"
proof (intro conjI impI)
  show "\<forall>e\<in>set (snd (call h self inputs states training kw)).
      inv_kwargs e ''training'' =
        (if is_layer (h (inv_cell e)) \<and> call_has_training_arg (h (inv_cell e))
         then Some training else None) \<and>
      (\<forall>k. k \<noteq> ''training'' \<longrightarrow> inv_kwargs e k = kw k)"
    using call_loop_kwargs [of kw kw h training "zip (cells self) states" inputs "[]" "[]"]
    by (simp add: call_def)
next
  assume a: "cells self = [a1, a2] \<and> \<not> call_has_training_arg (h a1) \<and> call_has_training_arg (h a2) \<and>
    cell_call_fn (h a1) = Inr f1 \<and> cell_call_fn (h a2) = Inr f2 \<and>
    f1 inputs (normalize_states s1) (kw(''training'' := None)) = Inr (y, n1) \<and>
    f2 y (normalize_states s2) (forward_kwargs (h a2) training kw) = Inr (z, n2)"
  have k1: "forward_kwargs (h a1) training kw = kw(''training'' := None)"
    using a by (simp add: forward_kwargs_def)
  have k2: "forward_kwargs (h a2) training (kw(''training'' := None)) =
      forward_kwargs (h a2) training kw"
    by (rule forward_kwargs_cong) simp
  show "call h self inputs [s1, s2] training kw =
        (Inr (z, [n1, n2]),
         [\<lparr>inv_cell = a1, inv_inputs = inputs, inv_states = normalize_states s1,
            inv_kwargs = kw(''training'' := None)\<rparr>,
          \<lparr>inv_cell = a2, inv_inputs = y, inv_states = normalize_states s2,
            inv_kwargs = forward_kwargs (h a2) training kw\<rparr>])"
    using a by (simp add: call_def Let_def k1 k2)
qed

theorem training_flag_forwarding_witness:
  "map (\<lambda>e. inv_kwargs e ''training'')
     (snd (call training_heap \<lparr>layer = example_base, cells = [0, 1]\<rparr> (VTensor 7)
             [VTensor 1, VTuple [VTensor 2, VTensor 3]] (VBool True) Map.empty)) =
   [None, Some (VBool True)]"
proof -
  let ?self = "\<lparr>layer = example_base, cells = [0, 1]\<rparr>"
  let ?call = "call training_heap ?self (VTensor 7)
             [VTensor 1, VTuple [VTensor 2, VTensor 3]] (VBool True) Map.empty"
  note t = training_flag_forwarding [where h = training_heap and self = ?self
      and inputs = "VTensor 7" and training = "VBool True" and kw = Map.empty
      and ?a1.0 = 0 and ?a2.0 = 1 and ?s1.0 = "VTensor 1"
      and ?s2.0 = "VTuple [VTensor 2, VTensor 3]"
      and states = "[VTensor 1, VTuple [VTensor 2, VTensor 3]]"
      and ?f1.0 = example_step and ?f2.0 = example_step
      and y = "VList [VTensor 7, VTensor 1]" and ?n1.0 = "VList [VTensor 1]"
      and z = "VList [VList [VTensor 7, VTensor 1], VTensor 2, VTensor 3]"
      and ?n2.0 = "VList [VTensor 2, VTensor 3]"]
  have pre: "cells ?self = [0, 1] \<and> \<not> call_has_training_arg (training_heap 0) \<and>
    call_has_training_arg (training_heap 1) \<and>
    cell_call_fn (training_heap 0) = Inr example_step \<and>
    cell_call_fn (training_heap 1) = Inr example_step \<and>
    example_step (VTensor 7) (normalize_states (VTensor 1)) (Map.empty(''training'' := None)) =
      Inr (VList [VTensor 7, VTensor 1], VList [VTensor 1]) \<and>
    example_step (VList [VTensor 7, VTensor 1]) (normalize_states (VTuple [VTensor 2, VTensor 3]))
      (forward_kwargs (training_heap 1) (VBool True) Map.empty) =
      Inr (VList [VList [VTensor 7, VTensor 1], VTensor 2, VTensor 3],
           VList [VTensor 2, VTensor 3])"
    by (simp add: training_heap_def example_cell_def cell_call_fn_def example_step_def
        normalize_states_def)
  from t pre have c: "?call =
        (Inr (VList [VList [VTensor 7, VTensor 1], VTensor 2, VTensor 3],
              [VList [VTensor 1], VList [VTensor 2, VTensor 3]]),
         [\<lparr>inv_cell = 0, inv_inputs = VTensor 7, inv_states = normalize_states (VTensor 1),
            inv_kwargs = Map.empty(''training'' := None)\<rparr>,
          \<lparr>inv_cell = 1, inv_inputs = VList [VTensor 7, VTensor 1],
            inv_states = normalize_states (VTuple [VTensor 2, VTensor 3]),
            inv_kwargs = forward_kwargs (training_heap 1) (VBool True) Map.empty\<rparr>])"
    by blast
  from t have all: "\<forall>e\<in>set (snd ?call).
      inv_kwargs e ''training'' =
        (if is_layer (training_heap (inv_cell e)) \<and> call_has_training_arg (training_heap (inv_cell e))
         then Some (VBool True) else None)"
    by blast
  have "map (\<lambda>e. inv_kwargs e ''training'') (snd ?call) =
        map (\<lambda>e. if is_layer (training_heap (inv_cell e)) \<and>
                     call_has_training_arg (training_heap (inv_cell e))
                  then Some (VBool True) else None) (snd ?call)"
    using all by (intro map_cong) simp_all
  also have "\<dots> = [None, Some (VBool True)]"
    unfolding c by (simp add: training_heap_def example_cell_def)
  finally show ?thesis .
qed

text \<open>
  The claim as first stated fails for a cell that is not a \<^verbatim>\<open>Layer\<close> instance: its
  \<^verbatim>\<open>call\<close> signature has a \<^verbatim>\<open>training\<close> parameter, and the flag is not forwarded to it.
\<close>

theorem training_flag_plain_cell_counterexample:
  "call_has_training_arg (training_heap 2) \<and>
   length (snd (call training_heap \<lparr>layer = example_base, cells = [2]\<rparr> (VTensor 7)
                  [VTensor 1] (VBool True) Map.empty)) = 1 \<and>
   inv_cell (hd (snd (call training_heap \<lparr>layer = example_base, cells = [2]\<rparr> (VTensor 7)
                  [VTensor 1] (VBool True) Map.empty))) = 2 \<and>
   inv_kwargs (hd (snd (call training_heap \<lparr>layer = example_base, cells = [2]\<rparr> (VTensor 7)
                  [VTensor 1] (VBool True) Map.empty))) ''training'' = None"
  by (simp add: call_def Let_def training_heap_def plain_training_cell_def example_cell_def
      cell_call_fn_def forward_kwargs_def example_step_def)

subsection \<open>Build\<close>

lemma resolve_output_size_built [simp]:
  "resolve_output_size (c\<lparr>cell_built := b\<rparr>) = resolve_output_size c"
  by (simp add: resolve_output_size_def output_from_state_size_def
      split: option.splits val.splits list.splits)

lemma built_update_same: "cell_built c \<Longrightarrow> c\<lparr>cell_built := True\<rparr> = c"
  by simp

lemma mark_built_simps [simp]:
  "is_layer (mark_built h A a) = is_layer (h a)"
  "build_fn (mark_built h A a) = build_fn (h a)"
  "resolve_output_size (mark_built h A a) = resolve_output_size (h a)"
  by (simp_all add: mark_built_def)

lemma mark_built_other: "a \<notin> A \<Longrightarrow> mark_built h A a = h a"
  by (simp add: mark_built_def)

lemma mark_built_insert: "mark_built (mark_built h {a}) A = mark_built h (insert a A)"
  by (rule ext) (auto simp: mark_built_def)

lemma build_cell_ok:
  assumes "is_layer (h a) \<and> \<not> cell_built (h a) \<longrightarrow> (\<exists>f. build_fn (h a) = Some f \<and> f s = None)"
  shows "build_cell a s h hooks =
           (None, mark_built h {a},
            hooks @ (if is_layer (h a) \<and> \<not> cell_built (h a) then [(a, s)] else []))"
proof (cases "is_layer (h a) \<and> \<not> cell_built (h a)")
  case True
  with assms obtain f where "build_fn (h a) = Some f" "f s = None" by blast
  moreover have "h(a := (h a)\<lparr>cell_built := True\<rparr>) = mark_built h {a}"
    using True by (auto simp: mark_built_def)
  ultimately show ?thesis using True by (simp add: build_cell_def)
next
  case False
  have "mark_built h {a} = h"
  proof
    fix x show "mark_built h {a} x = h x"
      using False by (cases "x = a") (auto simp: mark_built_def)
  qed
  with False show ?thesis by (auto simp: build_cell_def)
qed

lemma unbuilt_layer_0:
  "unbuilt_layer h (a # as) 0 \<longleftrightarrow> is_layer (h a) \<and> \<not> cell_built (h a)"
  by (simp add: unbuilt_layer_def)

lemma unbuilt_layer_Suc:
  "unbuilt_layer h (a # as) (Suc i) \<longleftrightarrow> unbuilt_layer (mark_built h {a}) as i"
proof (cases "as ! i = a")
  case True
  then show ?thesis by (auto simp: unbuilt_layer_def mark_built_def)
next
  case False
  then show ?thesis by (simp add: unbuilt_layer_def mark_built_other)
qed

lemma upt_0_Suc: "[0..<Suc n] = 0 # map Suc [0..<n]"
  by (simp add: upt_conv_Cons map_Suc_upt del: upt_Suc)

lemma hooks_shift:
  "map (\<lambda>i. ((a # as) ! i, (s # ss) ! i)) (filter (unbuilt_layer h (a # as)) [0..<Suc (length as)]) =
     (if is_layer (h a) \<and> \<not> cell_built (h a) then [(a, s)] else []) @
     map (\<lambda>i. (as ! i, ss ! i)) (filter (unbuilt_layer (mark_built h {a}) as) [0..<length as])"
  by (simp add: upt_0_Suc filter_map o_def unbuilt_layer_0 unbuilt_layer_Suc del: upt_Suc)

lemma build_loop_chain:
  assumes "length ss = Suc (length as)"
    and "\<forall>i<length as. \<exists>b bs d. flatten (ss ! i) = b # bs \<and>
           resolve_output_size (h (as ! i)) = Inr d \<and> ss ! Suc i = VTuple [b, d]"
    and "\<forall>i<length as. unbuilt_layer h as i \<longrightarrow>
           (\<exists>f. build_fn (h (as ! i)) = Some f \<and> f (ss ! i) = None)"
  shows "build_loop as (ss ! 0) h hooks =
           (None, mark_built h (set as),
            hooks @ map (\<lambda>i. (as ! i, ss ! i)) (filter (unbuilt_layer h as) [0..<length as]))"
  using assms
proof (induction as arbitrary: ss h hooks)
  case Nil
  have "mark_built h {} = h" by (rule ext) (simp add: mark_built_def)
  then show ?case by simp
next
  case (Cons a as)
  from Cons.prems(1) obtain s ss' where ss: "ss = s # ss'" and l: "length ss' = Suc (length as)"
    by (cases ss) auto
  let ?h1 = "mark_built h {a}"
  let ?l0 = "if is_layer (h a) \<and> \<not> cell_built (h a) then [(a, s)] else []"
  from Cons.prems(3) have "unbuilt_layer h (a # as) 0 \<longrightarrow>
      (\<exists>f. build_fn (h ((a # as) ! 0)) = Some f \<and> f (ss ! 0) = None)"
    by blast
  then have "is_layer (h a) \<and> \<not> cell_built (h a) \<longrightarrow> (\<exists>f. build_fn (h a) = Some f \<and> f s = None)"
    by (simp add: unbuilt_layer_0 ss)
  then have cell: "build_cell a s h hooks = (None, ?h1, hooks @ ?l0)"
    by (rule build_cell_ok)
  from Cons.prems(2) have "\<exists>b bs d. flatten (ss ! 0) = b # bs \<and>
           resolve_output_size (h ((a # as) ! 0)) = Inr d \<and> ss ! Suc 0 = VTuple [b, d]"
    by blast
  then obtain b bs d where first: "flatten s = b # bs" "resolve_output_size (h a) = Inr d"
      "ss' ! 0 = VTuple [b, d]"
    by (auto simp: ss)
  have chain: "\<forall>i<length as. \<exists>b bs d. flatten (ss' ! i) = b # bs \<and>
           resolve_output_size (?h1 (as ! i)) = Inr d \<and> ss' ! Suc i = VTuple [b, d]"
  proof (intro allI impI)
    fix i assume "i < length as"
    then have "Suc i < length (a # as)" by simp
    with Cons.prems(2) have "\<exists>b bs d. flatten (ss ! Suc i) = b # bs \<and>
           resolve_output_size (h ((a # as) ! Suc i)) = Inr d \<and> ss ! Suc (Suc i) = VTuple [b, d]"
      by blast
    then show "\<exists>b bs d. flatten (ss' ! i) = b # bs \<and>
           resolve_output_size (?h1 (as ! i)) = Inr d \<and> ss' ! Suc i = VTuple [b, d]"
      by (simp add: ss)
  qed
  have hooks_ok: "\<forall>i<length as. unbuilt_layer ?h1 as i \<longrightarrow>
           (\<exists>f. build_fn (?h1 (as ! i)) = Some f \<and> f (ss' ! i) = None)"
  proof (intro allI impI)
    fix i assume i: "i < length as" and u: "unbuilt_layer ?h1 as i"
    from i have "Suc i < length (a # as)" by simp
    moreover from u have "unbuilt_layer h (a # as) (Suc i)" by (simp add: unbuilt_layer_Suc)
    ultimately have "\<exists>f. build_fn (h ((a # as) ! Suc i)) = Some f \<and> f (ss ! Suc i) = None"
      using Cons.prems(3) by blast
    then show "\<exists>f. build_fn (?h1 (as ! i)) = Some f \<and> f (ss' ! i) = None"
      by (simp add: ss)
  qed
  note IH = Cons.IH [OF l chain hooks_ok, of "hooks @ ?l0"]
  have "build_loop (a # as) (ss ! 0) h hooks = build_loop as (ss' ! 0) ?h1 (hooks @ ?l0)"
    by (simp add: ss cell first)
  also have "\<dots> = (None, mark_built ?h1 (set as),
       (hooks @ ?l0) @ map (\<lambda>i. (as ! i, ss' ! i)) (filter (unbuilt_layer ?h1 as) [0..<length as]))"
    by (rule IH)
  also have "\<dots> = (None, mark_built h (set (a # as)),
       hooks @ map (\<lambda>i. ((a # as) ! i, ss ! i)) (filter (unbuilt_layer h (a # as)) [0..<length (a # as)]))"
    unfolding ss by (simp only: hooks_shift mark_built_insert list.set length_Cons append_assoc)
  finally show ?case .
qed

text \<open>
  Claim C8, as amended. Let \<open>ss\<close> be the running input shapes: \<open>ss ! 0\<close> is the input shape
  of the call and \<open>ss ! (i + 1)\<close> is the pair of the first leaf of \<open>ss ! i\<close> and the output
  size resolved on cell \<open>i\<close>; and let the build hook of every unbuilt layer return on its
  running shape. Then \<^verbatim>\<open>build\<close> goes through the cells in order, invokes the hook of
  exactly the cells that are \<^verbatim>\<open>Layer\<close> instances and are not built yet, each with its
  running shape, marks these cells built, and at the end marks the composite built. A cell that
  is not a \<^verbatim>\<open>Layer\<close> instance is left alone, whether it has a \<^verbatim>\<open>build\<close> method or not.
\<close>

theorem build_propagates_shapes:
  assumes "length ss = Suc (length (cells self))" and "ss ! 0 = input_shape"
    and "\<forall>i<length (cells self). \<exists>b bs d. flatten (ss ! i) = b # bs \<and>
           resolve_output_size (h (cells self ! i)) = Inr d \<and> ss ! Suc i = VTuple [b, d]"
    and "\<forall>i<length (cells self). unbuilt_layer h (cells self) i \<longrightarrow>
           (\<exists>f. build_fn (h (cells self ! i)) = Some f \<and> f (ss ! i) = None)"
  shows "build h self input_shape =
           (None, mark_built h (set (cells self)),
            self\<lparr>layer := (layer self)\<lparr>built := True\<rparr>\<rparr>,
            map (\<lambda>i. (cells self ! i, ss ! i))
              (filter (unbuilt_layer h (cells self)) [0..<length (cells self)]))"
proof -
  have "build_loop (cells self) (ss ! 0) h [] =
           (None, mark_built h (set (cells self)),
            [] @ map (\<lambda>i. (cells self ! i, ss ! i))
              (filter (unbuilt_layer h (cells self)) [0..<length (cells self)]))"
    using assms(1,3,4) by (rule build_loop_chain)
  then show ?thesis
    by (simp add: build_def assms(2))
qed

theorem build_propagates_shapes_witness:
  "fst (build build_heap \<lparr>layer = example_base, cells = [0, 1, 0, 2]\<rparr> (VTuple [VInt 3, VInt 2])) = None \<and>
   snd (snd (snd (build build_heap \<lparr>layer = example_base, cells = [0, 1, 0, 2]\<rparr>
                    (VTuple [VInt 3, VInt 2])))) = [(0, VTuple [VInt 3, VInt 2])] \<and>
   built (layer (fst (snd (snd (build build_heap \<lparr>layer = example_base, cells = [0, 1, 0, 2]\<rparr>
                    (VTuple [VInt 3, VInt 2]))))))"
proof -
  let ?self = "\<lparr>layer = example_base, cells = [0, 1, 0, 2]\<rparr>"
  let ?ss = "[VTuple [VInt 3, VInt 2], VTuple [VInt 3, VInt 4], VTuple [VInt 3, VInt 7],
              VTuple [VInt 3, VInt 4], VTuple [VInt 3, VInt 16]]"
  have 1: "length ?ss = Suc (length (cells ?self))" by simp
  have 2: "?ss ! 0 = VTuple [VInt 3, VInt 2]" by simp
  have 3: "\<forall>i<length (cells ?self). \<exists>b bs d. flatten (?ss ! i) = b # bs \<and>
           resolve_output_size (build_heap (cells ?self ! i)) = Inr d \<and>
           ?ss ! Suc i = VTuple [b, d]"
    by (simp add: less_Suc_eq build_heap_def duck_cell_def example_cell_def sized_cell_def
        resolve_output_size_def output_from_state_size_def)
  have 4: "\<forall>i<length (cells ?self). unbuilt_layer build_heap (cells ?self) i \<longrightarrow>
           (\<exists>f. build_fn (build_heap (cells ?self ! i)) = Some f \<and> f (?ss ! i) = None)"
    by (simp add: less_Suc_eq build_heap_def duck_cell_def example_cell_def sized_cell_def)
  have u: "unbuilt_layer build_heap (cells ?self) 0 \<and>
           \<not> unbuilt_layer build_heap (cells ?self) (Suc 0) \<and>
           \<not> unbuilt_layer build_heap (cells ?self) (Suc (Suc 0)) \<and>
           \<not> unbuilt_layer build_heap (cells ?self) (Suc (Suc (Suc 0)))"
    by (simp add: unbuilt_layer_def build_heap_def duck_cell_def example_cell_def sized_cell_def)
  from build_propagates_shapes [OF 1 2 3 4] u show ?thesis
    by (simp add: upt_rec)
qed

text \<open>
  The claim as first stated fails for a cell that is not a \<^verbatim>\<open>Layer\<close> instance: it has a
  \<^verbatim>\<open>build\<close> method and is not built, and \<^verbatim>\<open>build\<close> of the composite returns without
  invoking the method or marking the cell.
\<close>

theorem build_duck_cell_counterexample:
  "build_fn (build_heap 1) \<noteq> None \<and> \<not> cell_built (build_heap 1) \<and>
   fst (build build_heap \<lparr>layer = example_base, cells = [1]\<rparr> (VTuple [VInt 3, VInt 2])) = None \<and>
   snd (snd (snd (build build_heap \<lparr>layer = example_base, cells = [1]\<rparr>
                    (VTuple [VInt 3, VInt 2])))) = [] \<and>
   \<not> cell_built (fst (snd (build build_heap \<lparr>layer = example_base, cells = [1]\<rparr>
                    (VTuple [VInt 3, VInt 2]))) 1)"
  by (simp add: build_def build_cell_def build_heap_def duck_cell_def example_cell_def
      resolve_output_size_def output_from_state_size_def)

lemma build_cell_cases:
  assumes "build_cell a s h hooks = (r, h1, hooks1)"
  shows "(hooks1 = hooks \<or> hooks1 = hooks @ [(a, s)] \<and> is_layer (h a) \<and> \<not> cell_built (h a)) \<and>
         (r = None \<longrightarrow> h1 = mark_built h {a}) \<and> (r \<noteq> None \<longrightarrow> h1 = h)"
proof (cases r)
  case None
  with assms have ok: "is_layer (h a) \<and> \<not> cell_built (h a) \<longrightarrow>
      (\<exists>f. build_fn (h a) = Some f \<and> f s = None)"
    by (auto simp: build_cell_def split: if_splits option.splits)
  have "build_cell a s h hooks =
           (None, mark_built h {a},
            hooks @ (if is_layer (h a) \<and> \<not> cell_built (h a) then [(a, s)] else []))"
    using ok by (rule build_cell_ok)
  with assms None show ?thesis
    by (auto split: if_splits)
next
  case (Some e)
  with assms show ?thesis
    by (auto simp: build_cell_def split: if_splits option.splits)
qed

lemma mark_built_mono: "cell_built (h a) \<Longrightarrow> cell_built (mark_built h A a)"
  by (simp add: mark_built_def)

lemma mark_built_self: "is_layer (h a) \<Longrightarrow> cell_built (mark_built h {a} a)"
  by (simp add: mark_built_def)

lemma build_loop_hooks:
  assumes "build_loop as s h hooks = (r, h', hooks')"
  shows "\<exists>l. hooks' = hooks @ l \<and> distinct (map fst l) \<and>
           (\<forall>a\<in>fst ` set l. a \<in> set as \<and> is_layer (h a) \<and> \<not> cell_built (h a)) \<and>
           (\<forall>a. cell_built (h a) \<longrightarrow> cell_built (h' a)) \<and>
           (\<forall>a. is_layer (h' a) = is_layer (h a)) \<and>
           (r = None \<longrightarrow> (\<forall>a\<in>set as. is_layer (h a) \<longrightarrow> cell_built (h' a)))"
  using assms
proof (induction as arbitrary: s h hooks)
  case Nil
  then show ?case by simp
next
  case (Cons a as)
  obtain r0 h1 hooks1 where cell: "build_cell a s h hooks = (r0, h1, hooks1)"
    by (cases "build_cell a s h hooks") auto
  note c = build_cell_cases [OF cell]
  from c obtain l0 where l0: "hooks1 = hooks @ l0" "l0 = [] \<or> l0 = [(a, s)] \<and> is_layer (h a) \<and> \<not> cell_built (h a)"
    by auto
  show ?case
  proof (cases r0)
    case (Some e)
    with Cons.prems cell have res: "r = Some e" "h' = h1" "hooks' = hooks1"
      by simp_all
    from c Some have "h1 = h" by simp
    with res l0 show ?thesis by auto
  next
    case None
    with c have h1: "h1 = mark_built h {a}" by simp
    show ?thesis
    proof (cases "\<exists>d b bs. resolve_output_size (h1 a) = Inr d \<and> flatten s = b # bs")
      case False
      with Cons.prems cell None have res: "r \<noteq> None" "h' = h1" "hooks' = hooks1"
        by (auto split: sum.splits list.splits)
      with l0 h1 show ?thesis by (auto simp: mark_built_mono)
    next
      case True
      then obtain d b bs where "resolve_output_size (h1 a) = Inr d" "flatten s = b # bs"
        by blast
      with Cons.prems cell None
      have rec: "build_loop as (VTuple [b, d]) h1 hooks1 = (r, h', hooks')"
        by simp
      from Cons.IH [OF rec] obtain l where l: "hooks' = hooks1 @ l" "distinct (map fst l)"
        "\<forall>a\<in>fst ` set l. a \<in> set as \<and> is_layer (h1 a) \<and> \<not> cell_built (h1 a)"
        "\<forall>a. cell_built (h1 a) \<longrightarrow> cell_built (h' a)"
        "\<forall>a. is_layer (h' a) = is_layer (h1 a)"
        "r = None \<longrightarrow> (\<forall>a\<in>set as. is_layer (h1 a) \<longrightarrow> cell_built (h' a))"
        by blast
      have 1: "hooks' = hooks @ (l0 @ l)"
        using l(1) l0(1) by simp
      have notin: "a \<notin> fst ` set l" if "l0 \<noteq> []"
      proof
        assume "a \<in> fst ` set l"
        with l(3) have "\<not> cell_built (h1 a)" by blast
        moreover from that l0(2) have "is_layer (h a)" by auto
        ultimately show False by (simp add: h1 mark_built_self)
      qed
      have 2: "distinct (map fst (l0 @ l))"
      proof (cases "l0 = []")
        case True
        with l(2) show ?thesis by simp
      next
        case False
        with l0(2) have "l0 = [(a, s)]" by simp
        moreover from False have "a \<notin> fst ` set l" by (rule notin)
        ultimately show ?thesis using l(2) by simp
      qed
      have 3: "\<forall>x\<in>fst ` set (l0 @ l). x \<in> set (a # as) \<and> is_layer (h x) \<and> \<not> cell_built (h x)"
      proof
        fix x assume "x \<in> fst ` set (l0 @ l)"
        then consider "x \<in> fst ` set l0" | "x \<in> fst ` set l" by auto
        then show "x \<in> set (a # as) \<and> is_layer (h x) \<and> \<not> cell_built (h x)"
        proof cases
          case 1
          with l0(2) show ?thesis by auto
        next
          case 2
          with l(3) have "x \<in> set as" "is_layer (h1 x)" "\<not> cell_built (h1 x)" by auto
          then show ?thesis by (auto simp: h1 dest: mark_built_mono)
        qed
      qed
      have 4: "\<forall>x. cell_built (h x) \<longrightarrow> cell_built (h' x)"
        using l(4) by (simp add: h1 mark_built_mono)
      have 5: "\<forall>x. is_layer (h' x) = is_layer (h x)"
        using l(5) by (simp add: h1)
      have 6: "r = None \<longrightarrow> (\<forall>x\<in>set (a # as). is_layer (h x) \<longrightarrow> cell_built (h' x))"
        using l(4,6) by (auto simp: h1 mark_built_self)
      from 1 2 3 4 5 6 show ?thesis by blast
    qed
  qed
qed

lemma build_results:
  assumes "build h self s = (r, h', self', hooks)"
  shows "build_loop (cells self) s h [] = (r, h', hooks) \<and> cells self' = cells self"
  using assms by (auto simp: build_def split: prod.splits option.splits)

text \<open>
  Claim C4. Take two calls of \<^verbatim>\<open>build\<close> with the same input shape, one after the other.
  A cell whose \<^verbatim>\<open>built\<close> flag is set after the first call has no hook invoked in the
  second. When the first call returns without an exception, the second invokes no hook at
  all, and over both calls no cell has its hook invoked twice, also when the same object
  occurs several times in the list.
\<close>

theorem build_idempotent:
  assumes "build h self s = (r1, h1, self1, hooks1)"
    and "build h1 self1 s = (r2, h2, self2, hooks2)"
  shows "(\<forall>a. cell_built (h1 a) \<longrightarrow> a \<notin> fst ` set hooks2) \<and>
         (r1 = None \<longrightarrow> hooks2 = [] \<and> distinct (map fst (hooks1 @ hooks2)))"
proof -
  from build_results [OF assms(1)]
  have b1: "build_loop (cells self) s h [] = (r1, h1, hooks1)" and c: "cells self1 = cells self"
    by simp_all
  from build_results [OF assms(2)] c
  have b2: "build_loop (cells self) s h1 [] = (r2, h2, hooks2)"
    by simp
  from build_loop_hooks [OF b1] have f1: "distinct (map fst hooks1)"
    "\<forall>a. is_layer (h1 a) = is_layer (h a)"
    "r1 = None \<longrightarrow> (\<forall>a\<in>set (cells self). is_layer (h a) \<longrightarrow> cell_built (h1 a))"
    by auto
  from build_loop_hooks [OF b2] have f2:
    "\<forall>a\<in>fst ` set hooks2. a \<in> set (cells self) \<and> is_layer (h1 a) \<and> \<not> cell_built (h1 a)"
    by auto
  have 1: "\<forall>a. cell_built (h1 a) \<longrightarrow> a \<notin> fst ` set hooks2"
    using f2 by blast
  have 2: "hooks2 = []" if "r1 = None"
  proof (cases hooks2)
    case Nil
    then show ?thesis .
  next
    case (Cons p ps)
    then have "fst p \<in> fst ` set hooks2" by simp
    with f2 have "fst p \<in> set (cells self)" "is_layer (h1 (fst p))" "\<not> cell_built (h1 (fst p))"
      by blast+
    with f1(2,3) that show ?thesis by auto
  qed
  from 1 2 f1(1) show ?thesis by simp
qed

theorem build_idempotent_witness:
  "fst (build build_heap \<lparr>layer = example_base, cells = [0, 1, 0, 2]\<rparr> (VTuple [VInt 3, VInt 2])) = None \<and>
   snd (snd (snd (build
      (fst (snd (build build_heap \<lparr>layer = example_base, cells = [0, 1, 0, 2]\<rparr>
                   (VTuple [VInt 3, VInt 2]))))
      (fst (snd (snd (build build_heap \<lparr>layer = example_base, cells = [0, 1, 0, 2]\<rparr>
                   (VTuple [VInt 3, VInt 2])))))
      (VTuple [VInt 3, VInt 2])))) = []"
proof -
  let ?self = "\<lparr>layer = example_base, cells = [0, 1, 0, 2]\<rparr>"
  let ?s = "VTuple [VInt 3, VInt 2]"
  let ?b1 = "build build_heap ?self ?s"
  let ?h1 = "fst (snd ?b1)"
  let ?self1 = "fst (snd (snd ?b1))"
  let ?b2 = "build ?h1 ?self1 ?s"
  have e1: "?b1 = (fst ?b1, ?h1, ?self1, snd (snd (snd ?b1)))" by simp
  have e2: "?b2 = (fst ?b2, fst (snd ?b2), fst (snd (snd ?b2)), snd (snd (snd ?b2)))" by simp
  have r1: "fst ?b1 = None"
    by (simp add: build_def build_cell_def build_heap_def duck_cell_def example_cell_def
        sized_cell_def resolve_output_size_def output_from_state_size_def)
  from build_idempotent [OF e1 e2] r1 show ?thesis
    by blast
qed

subsection \<open>Configuration\<close>

lemma serialize_cells_Inr:
  "serialize_cells ser h as acc = Inr ds \<longleftrightarrow>
     (\<exists>vs. ds = acc @ vs \<and> list_all2 (\<lambda>a d. ser (h a) = Inr d) as vs)"
proof (induction as arbitrary: acc)
  case Nil
  then show ?case by auto
next
  case (Cons a as)
  show ?case
  proof (cases "ser (h a)")
    case (Inl e)
    then show ?thesis by (auto simp: list_all2_Cons1)
  next
    case (Inr d)
    then show ?thesis by (auto simp: Cons.IH list_all2_Cons1)
  qed
qed

lemma deserialize_cells_chain:
  assumes "length hs = Suc (length ds)" "length as = length ds"
    and "\<forall>i<length ds. D (ds ! i) co (hs ! i) = Inr (as ! i, hs ! Suc i)"
  shows "deserialize_cells D co ds acc (hs ! 0) = Inr (acc @ as, hs ! length ds)"
  using assms
proof (induction ds arbitrary: hs as acc)
  case Nil
  then show ?case by simp
next
  case (Cons d ds)
  from Cons.prems(1) obtain h hs' where hs: "hs = h # hs'" and l1: "length hs' = Suc (length ds)"
    by (cases hs) auto
  from Cons.prems(2) obtain a as' where as: "as = a # as'" and l2: "length as' = length ds"
    by (cases as) auto
  from Cons.prems(3) have "D ((d # ds) ! 0) co (hs ! 0) = Inr (as ! 0, hs ! Suc 0)"
    by blast
  then have first: "D d co h = Inr (a, hs' ! 0)"
    by (simp add: hs as)
  have rest: "\<forall>i<length ds. D (ds ! i) co (hs' ! i) = Inr (as' ! i, hs' ! Suc i)"
  proof (intro allI impI)
    fix i assume "i < length ds"
    then have "Suc i < length (d # ds)" by simp
    with Cons.prems(3) have "D ((d # ds) ! Suc i) co (hs ! Suc i) = Inr (as ! Suc i, hs ! Suc (Suc i))"
      by blast
    then show "D (ds ! i) co (hs' ! i) = Inr (as' ! i, hs' ! Suc i)"
      by (simp add: hs as)
  qed
  from Cons.IH [OF l1 l2 rest, of "acc @ [a]"] first show ?case
    by (simp add: hs as)
qed

lemma deserialize_cells_fails:
  assumes "k < length ds" "length hs = Suc k" "length as = k"
    and "\<forall>i<k. D (ds ! i) co (hs ! i) = Inr (as ! i, hs ! Suc i)"
    and "D (ds ! k) co (hs ! k) = Inl e"
  shows "deserialize_cells D co ds acc (hs ! 0) = Inl e"
  using assms
proof (induction ds arbitrary: k hs as acc)
  case Nil
  then show ?case by simp
next
  case (Cons d ds)
  from Cons.prems(2) obtain h hs' where hs: "hs = h # hs'" and l1: "length hs' = k"
    by (cases hs) auto
  show ?case
  proof (cases k)
    case 0
    with Cons.prems(5) show ?thesis by (simp add: hs)
  next
    case (Suc j)
    with Cons.prems(3) obtain a as' where as: "as = a # as'" and l2: "length as' = j"
      by (cases as) auto
    from Cons.prems(4) Suc have "D ((d # ds) ! 0) co (hs ! 0) = Inr (as ! 0, hs ! Suc 0)"
      by blast
    then have first: "D d co h = Inr (a, hs' ! 0)"
      by (simp add: hs as)
    have rest: "\<forall>i<j. D (ds ! i) co (hs' ! i) = Inr (as' ! i, hs' ! Suc i)"
    proof (intro allI impI)
      fix i assume "i < j"
      then have "Suc i < k" by (simp add: Suc)
      with Cons.prems(4) have "D ((d # ds) ! Suc i) co (hs ! Suc i) = Inr (as ! Suc i, hs ! Suc (Suc i))"
        by blast
      then show "D (ds ! i) co (hs' ! i) = Inr (as' ! i, hs' ! Suc i)"
        by (simp add: hs as)
    qed
    have j: "j < length ds" using Cons.prems(1) Suc by simp
    have l1': "length hs' = Suc j" using l1 Suc by simp
    have last: "D (ds ! j) co (hs' ! j) = Inl e"
      using Cons.prems(5) by (simp add: Suc hs)
    from Cons.IH [OF j l1' l2 rest last, of "acc @ [a]"] first show ?thesis
      by (simp add: hs)
  qed
qed

lemma init_cells: "init layer_init h cs kw = Inr self \<Longrightarrow> cells self = cs"
  by (auto simp: init_def split: sum.splits option.splits)

text \<open>
  Claim C9. The configuration that \<^verbatim>\<open>get_config\<close> returns holds one descriptor per
  cell, in cell order, each the serialization of its cell. On this configuration
  \<^verbatim>\<open>from_config\<close> deserializes the descriptors in order: when every deserialization
  returns, the composite is constructed by \<^verbatim>\<open>__init__\<close> from the reconstructed cells, in
  the same order and as many as the original had, and from the remaining entries of the
  configuration; when the deserialization of some descriptor raises, \<^verbatim>\<open>from_config\<close>
  raises that exception and returns no composite.
\<close>

theorem config_round_trip:
  assumes "get_config serialize h self = Inr cfg"
  shows "\<exists>ds. cfg_cells cfg = Some ds \<and> length ds = length (cells self) \<and>
           (\<forall>i<length ds. serialize (h (cells self ! i)) = Inr (ds ! i)) \<and>
           (\<forall>hs as. length hs = Suc (length ds) \<and> length as = length ds \<and>
                (\<forall>i<length ds. deserialize (ds ! i) custom_objects (hs ! i) =
                    Inr (as ! i, hs ! Suc i)) \<longrightarrow>
              from_config layer_init deserialize cfg custom_objects (hs ! 0) =
                (case init layer_init (hs ! length ds) as (cfg_rest cfg) of
                   Inl e \<Rightarrow> Inl e
                 | Inr self' \<Rightarrow> Inr (self', hs ! length ds)) \<and>
              (\<forall>self' h'. from_config layer_init deserialize cfg custom_objects (hs ! 0) =
                   Inr (self', h') \<longrightarrow> cells self' = as \<and> length (cells self') = length (cells self))) \<and>
           (\<forall>k hs as e. k < length ds \<and> length hs = Suc k \<and> length as = k \<and>
                (\<forall>i<k. deserialize (ds ! i) custom_objects (hs ! i) = Inr (as ! i, hs ! Suc i)) \<and>
                deserialize (ds ! k) custom_objects (hs ! k) = Inl e \<longrightarrow>
              from_config layer_init deserialize cfg custom_objects (hs ! 0) = Inl e)"
proof -
  from assms obtain ds where ser: "serialize_cells serialize h (cells self) [] = Inr ds"
    and cfg: "cfg = \<lparr>cfg_cells = Some ds, cfg_rest = (base_config (layer self))(''cells'' := None)\<rparr>"
    by (auto simp: get_config_def split: sum.splits)
  from ser have all2: "list_all2 (\<lambda>a d. serialize (h a) = Inr d) (cells self) ds"
    by (simp add: serialize_cells_Inr)
  then have len: "length ds = length (cells self)"
    by (simp add: list_all2_lengthD)
  have nth: "serialize (h (cells self ! i)) = Inr (ds ! i)" if "i < length ds" for i
    using list_all2_nthD [OF all2] that len by simp
  have ok: "from_config layer_init deserialize cfg custom_objects (hs ! 0) =
                (case init layer_init (hs ! length ds) as (cfg_rest cfg) of
                   Inl e \<Rightarrow> Inl e
                 | Inr self' \<Rightarrow> Inr (self', hs ! length ds)) \<and>
              (\<forall>self' h'. from_config layer_init deserialize cfg custom_objects (hs ! 0) =
                   Inr (self', h') \<longrightarrow> cells self' = as \<and> length (cells self') = length (cells self))"
    if c: "length hs = Suc (length ds) \<and> length as = length ds \<and>
          (\<forall>i<length ds. deserialize (ds ! i) custom_objects (hs ! i) = Inr (as ! i, hs ! Suc i))"
    for hs as
  proof -
    from c have "deserialize_cells deserialize custom_objects ds [] (hs ! 0) =
        Inr ([] @ as, hs ! length ds)"
      by (intro deserialize_cells_chain) simp_all
    then have fc: "from_config layer_init deserialize cfg custom_objects (hs ! 0) =
                (case init layer_init (hs ! length ds) as (cfg_rest cfg) of
                   Inl e \<Rightarrow> Inl e
                 | Inr self' \<Rightarrow> Inr (self', hs ! length ds))"
      by (simp add: from_config_def cfg)
    have "cells self' = as \<and> length (cells self') = length (cells self)"
      if "from_config layer_init deserialize cfg custom_objects (hs ! 0) = Inr (self', h')"
      for self' h'
    proof -
      from that fc have "init layer_init (hs ! length ds) as (cfg_rest cfg) = Inr self'"
        by (auto split: sum.splits)
      then have "cells self' = as" by (rule init_cells)
      with c len show ?thesis by simp
    qed
    with fc show ?thesis by blast
  qed
  have bad: "from_config layer_init deserialize cfg custom_objects (hs ! 0) = Inl e"
    if c: "k < length ds \<and> length hs = Suc k \<and> length as = k \<and>
          (\<forall>i<k. deserialize (ds ! i) custom_objects (hs ! i) = Inr (as ! i, hs ! Suc i)) \<and>
          deserialize (ds ! k) custom_objects (hs ! k) = Inl e"
    for k hs as e
  proof -
    from c have "deserialize_cells deserialize custom_objects ds [] (hs ! 0) = Inl e"
      by (intro deserialize_cells_fails [where k = k and as = as]) simp_all
    then show ?thesis
      by (simp add: from_config_def cfg)
  qed
  have "cfg_cells cfg = Some ds" by (simp add: cfg)
  with len nth ok bad show ?thesis by blast
qed

theorem config_round_trip_witness:
  "get_config example_serialize example_heap \<lparr>layer = example_base, cells = [0, 1]\<rparr> =
     Inr example_config \<and>
   map_sum id (\<lambda>r. cells (fst r))
     (from_config example_layer_init example_deserialize example_config [''Cell''] example_heap) =
     Inr [104, 108] \<and>
   from_config example_layer_init example_deserialize example_config [] example_heap =
     Inl (Raised 1)"
proof -
  let ?self = "\<lparr>layer = example_base, cells = [0, 1]\<rparr>"
  let ?d0 = "Descr ''Cell'' [(''units'', VInt 4)]"
  let ?d1 = "Descr ''Cell'' [(''units'', VInt 8)]"
  let ?h1 = "example_heap(104 := example_cell (VInt 4))"
  let ?h2 = "?h1(108 := example_cell (VInt 8))"
  let ?hs = "[example_heap, ?h1, ?h2]"
  let ?as = "[104, 108::nat]"
  have gc: "get_config example_serialize example_heap ?self = Inr example_config"
    by (simp add: get_config_def example_serialize_def example_heap_def example_cell_def
        example_config_def example_base_def)
  from config_round_trip [OF gc, where deserialize = example_deserialize
      and layer_init = example_layer_init and custom_objects = "[''Cell'']"]
  obtain ds where ds: "cfg_cells example_config = Some ds"
    and ok: "\<And>hs as. length hs = Suc (length ds) \<and> length as = length ds \<and>
                (\<forall>i<length ds. example_deserialize (ds ! i) [''Cell''] (hs ! i) =
                    Inr (as ! i, hs ! Suc i)) \<Longrightarrow>
              from_config example_layer_init example_deserialize example_config [''Cell''] (hs ! 0) =
                (case init example_layer_init (hs ! length ds) as (cfg_rest example_config) of
                   Inl e \<Rightarrow> Inl e
                 | Inr self' \<Rightarrow> Inr (self', hs ! length ds))"
    by blast
  from ds have dsv: "ds = [?d0, ?d1]"
    by (simp add: example_config_def)
  have chain: "length ?hs = Suc (length ds) \<and> length ?as = length ds \<and>
                (\<forall>i<length ds. example_deserialize (ds ! i) [''Cell''] (?hs ! i) =
                    Inr (?as ! i, ?hs ! Suc i))"
    by (simp add: dsv less_Suc_eq example_deserialize_def)
  have i: "init example_layer_init ?h2 ?as (cfg_rest example_config) =
      Inr \<lparr>layer = \<lparr>built = False, compute_dtype = ''float32'', base_config = Map.empty\<rparr>,
           cells = ?as\<rparr>"
    by (simp add: init_def example_layer_init_def example_config_def example_cell_def)
  from ok [OF chain] have 2: "map_sum id (\<lambda>r. cells (fst r))
     (from_config example_layer_init example_deserialize example_config [''Cell''] example_heap) =
     Inr [104, 108]"
    by (simp add: dsv i)
  from config_round_trip [OF gc, where deserialize = example_deserialize
      and layer_init = example_layer_init and custom_objects = "[]"]
  obtain ds' where ds': "cfg_cells example_config = Some ds'"
    and bad: "\<And>k hs as e. k < length ds' \<and> length hs = Suc k \<and> length as = k \<and>
                (\<forall>i<k. example_deserialize (ds' ! i) [] (hs ! i) = Inr (as ! i, hs ! Suc i)) \<and>
                example_deserialize (ds' ! k) [] (hs ! k) = Inl e \<Longrightarrow>
              from_config example_layer_init example_deserialize example_config [] (hs ! 0) = Inl e"
    by blast
  from ds' have dsv': "ds' = [?d0, ?d1]"
    by (simp add: example_config_def)
  have fail: "0 < length ds' \<and> length [example_heap] = Suc 0 \<and> length ([]::addr list) = 0 \<and>
                (\<forall>i<0. example_deserialize (ds' ! i) [] ([example_heap] ! i) =
                   Inr (([]::addr list) ! i, [example_heap] ! Suc i)) \<and>
                example_deserialize (ds' ! 0) [] ([example_heap] ! 0) = Inl (Raised 1)"
    by (simp add: dsv' example_deserialize_def)
  from bad [OF fail] have 3:
    "from_config example_layer_init example_deserialize example_config [] example_heap =
       Inl (Raised 1)"
    by simp
  from gc 2 3 show ?thesis by simp
qed

end
